theory Spec2Isabelle
  imports Main "HOL-Library.Word" "HOL-Library.Multiset"
begin

section \<open>Library routines called by the package\<close>

text \<open>
  Go strings are byte sequences, as \<open>string\<close> (a list of 8-bit \<open>char\<close>) is.
  Go's \<open>int\<close> is modelled at the width it has on 64-bit platforms, read as two's
  complement by \<open>sint\<close>.
\<close>

type_synonym go_int = "64 word"

subsection \<open>Package regexp: backtracking (leftmost-first) matching\<close>

text \<open>
  The syntax tree has what the pattern \<open>reSemVer\<close> uses: literals, \<open>\d\<close>, \<open>.\<close> (any
  byte but line feed, the flag \<open>s\<close> being off), concatenation, alternation (left
  alternative preferred), the greedy star and numbered capture groups. The library
  matches the code points of the UTF-8 text; every byte that \<open>reSemVer\<close> names is ASCII,
  and an ASCII byte is never part of a longer code point, so matching byte by byte finds
  the same match and the same groups.
\<close>

datatype re =
    Eps
  | Lit char
  | Digit
  | AnyNotNL
  | Cat re re
  | Alt re re
  | Star re
  | Cap nat re

type_synonym caps = "nat \<Rightarrow> string option"

definition is_digit :: "char \<Rightarrow> bool" where
  "is_digit c = (c \<in> set ''0123456789'')"

primrec re_size :: "re \<Rightarrow> nat" where
  "re_size Eps = 0"
| "re_size (Lit x) = 0"
| "re_size Digit = 0"
| "re_size AnyNotNL = 0"
| "re_size (Cat a b) = Suc (re_size a + re_size b)"
| "re_size (Alt a b) = Suc (re_size a + re_size b)"
| "re_size (Star a) = Suc (re_size a)"
| "re_size (Cap n a) = Suc (re_size a)"

text \<open>
  \<open>re_match r s c\<close> lists, in the order a backtracking search finds them, the ways \<open>r\<close>
  matches a prefix of \<open>s\<close>: each with the rest of the input and the captures. Go's
  regexp returns the match a backtracking search would have found first, so the head
  of the list is the match. An iteration of a star that consumes nothing is dropped
  (no loop body of \<open>reSemVer\<close> can match the empty string).
\<close>

function re_match :: "re \<Rightarrow> string \<Rightarrow> caps \<Rightarrow> (string \<times> caps) list" where
  "re_match Eps s c = [(s, c)]"
| "re_match (Lit x) s c = (case s of [] \<Rightarrow> [] | y # t \<Rightarrow> if y = x then [(t, c)] else [])"
| "re_match Digit s c = (case s of [] \<Rightarrow> [] | y # t \<Rightarrow> if is_digit y then [(t, c)] else [])"
| "re_match AnyNotNL s c =
     (case s of [] \<Rightarrow> [] | y # t \<Rightarrow> if y \<noteq> CHR 0x0A then [(t, c)] else [])"
| "re_match (Cat a b) s c = concat (map (\<lambda>p. re_match b (fst p) (snd p)) (re_match a s c))"
| "re_match (Alt a b) s c = re_match a s c @ re_match b s c"
| "re_match (Star a) s c =
     concat (map (\<lambda>p. if length (fst p) < length s then re_match (Star a) (fst p) (snd p) else [])
                 (re_match a s c))
     @ [(s, c)]"
| "re_match (Cap n a) s c =
     map (\<lambda>p. (fst p, (snd p)(n \<mapsto> take (length s - length (fst p)) s))) (re_match a s c)"
  by pat_completeness auto
termination
  by (relation "measures [\<lambda>(r, s, c). re_size r, \<lambda>(r, s, c). length s]") auto

text \<open>The greedy quantifiers \<open>x+\<close>, \<open>x?\<close> and \<open>x{0,2}\<close>, as the library's simplifier
  rewrites them: \<open>xx*\<close>, \<open>(?:x|)\<close> and \<open>(?:x(?:x)?)?\<close>.\<close>

definition Plus :: "re \<Rightarrow> re" where
  "Plus a = Cat a (Star a)"

definition Opt :: "re \<Rightarrow> re" where
  "Opt a = Alt a Eps"

definition Rep02 :: "re \<Rightarrow> re" where
  "Rep02 a = Opt (Cat a (Opt a))"

primrec NumSubexp :: "re \<Rightarrow> nat" where
  "NumSubexp Eps = 0"
| "NumSubexp (Lit x) = 0"
| "NumSubexp Digit = 0"
| "NumSubexp AnyNotNL = 0"
| "NumSubexp (Cat a b) = max (NumSubexp a) (NumSubexp b)"
| "NumSubexp (Alt a b) = max (NumSubexp a) (NumSubexp b)"
| "NumSubexp (Star a) = NumSubexp a"
| "NumSubexp (Cap n a) = max n (NumSubexp a)"

definition group :: "caps \<Rightarrow> nat \<Rightarrow> string" where
  "group c n = (case c n of None \<Rightarrow> [] | Some t \<Rightarrow> t)"

primrec groups :: "caps \<Rightarrow> nat \<Rightarrow> string list" where
  "groups c 0 = []"
| "groups c (Suc n) = groups c n @ [group c (Suc n)]"

text \<open>
  \<open>FindStringSubmatch\<close>: the leftmost match, as the matched text followed by the text
  of each group (empty for a group that took no part); the empty list (nil) when the
  pattern matches at no position.
\<close>

fun FindStringSubmatch :: "re \<Rightarrow> string \<Rightarrow> string list" where
  "FindStringSubmatch r s =
     (case re_match r s Map.empty of
        p # _ \<Rightarrow> take (length s - length (fst p)) s # groups (snd p) (NumSubexp r)
      | [] \<Rightarrow> (case s of [] \<Rightarrow> [] | _ # t \<Rightarrow> FindStringSubmatch r t))"

subsection \<open>Packages strings, strconv and fmt\<close>

text \<open>\<open>strings.Split\<close> with a separator of one byte (the source splits on \<open>"."\<close>):
  always at least one piece. \<open>strings.Join\<close> puts the separator between the elements.\<close>

fun Split :: "string \<Rightarrow> char \<Rightarrow> string list" where
  "Split [] sep = [[]]"
| "Split (x # xs) sep =
     (if x = sep then [] # Split xs sep
      else (case Split xs sep of p # ps \<Rightarrow> (x # p) # ps | [] \<Rightarrow> [[x]]))"

fun Join :: "string list \<Rightarrow> string \<Rightarrow> string" where
  "Join [] sep = []"
| "Join [e] sep = e"
| "Join (e # es) sep = e @ sep @ Join es sep"

definition digit_val :: "char \<Rightarrow> nat" where
  "digit_val c = of_char c - 48"

definition digits_value :: "string \<Rightarrow> nat" where
  "digits_value ds = foldl (\<lambda>acc d. 10 * acc + digit_val d) 0 ds"

text \<open>
  \<open>strconv.Atoi\<close>: an optional sign, then one or more decimal digits (a syntax error
  otherwise); a value outside the range of \<open>int\<close> is a range error. \<open>None\<close> is a
  non-nil error.
\<close>

definition Atoi :: "string \<Rightarrow> go_int option" where
  "Atoi s =
     (let neg = (s \<noteq> [] \<and> hd s = CHR ''-'');
          ds = (if s \<noteq> [] \<and> (hd s = CHR ''-'' \<or> hd s = CHR ''+'') then tl s else s)
      in if ds = [] \<or> \<not> list_all is_digit ds then None
         else if neg then
           (if int (digits_value ds) \<le> 2 ^ 63 then Some (word_of_int (- int (digits_value ds)))
            else None)
         else
           (if int (digits_value ds) < 2 ^ 63 then Some (word_of_int (int (digits_value ds)))
            else None))"

definition digit_char :: "nat \<Rightarrow> char" where
  "digit_char d = ''0123456789'' ! d"

fun nat_digits :: "nat \<Rightarrow> string" where
  "nat_digits n = (if n < 10 then [digit_char n] else nat_digits (n div 10) @ [digit_char (n mod 10)])"

text \<open>The verb \<open>%d\<close> of \<open>fmt.Sprintf\<close> on an \<open>int\<close>.\<close>

definition fmt_d :: "go_int \<Rightarrow> string" where
  "fmt_d w = (if sint w < 0 then CHR ''-'' # nat_digits (nat (- sint w)) else nat_digits (nat (sint w)))"

section \<open>The package semver\<close>

definition reSemVer :: re where
  "reSemVer =
     Cat (Alt (Lit CHR ''v'') (Alt (Lit CHR ''V'') Eps))
      (Cat (Cap 1 (Cat (Rep02 (Cat (Plus Digit) (Lit CHR ''.''))) (Plus Digit)))
       (Cat (Opt (Lit CHR ''-''))
            (Cap 2 (Star AnyNotNL))))"

record Version =
  major :: go_int
  minor :: go_int
  patch :: go_int
  suffix :: string


datatype error =
    InvalidVersionFormat string
  | InvalidMajorVersion string
  | InvalidMinorVersion string
  | InvalidPatchVersion string

subsection \<open>Pointers to versions\<close>

text \<open>
  The methods work on \<open>*Version\<close>. The store is the list of the versions allocated so
  far, a pointer is nil or the index of a cell, and a method that dereferences nil
  panics: the result \<open>None\<close>.
\<close>

datatype ptr = NilPtr | Ptr nat

type_synonym heap = "Version list"

definition load :: "heap \<Rightarrow> ptr \<Rightarrow> Version option" where
  "load h p = (case p of NilPtr \<Rightarrow> None | Ptr a \<Rightarrow> if a < length h then Some (h ! a) else None)"

definition store :: "heap \<Rightarrow> ptr \<Rightarrow> Version \<Rightarrow> heap" where
  "store h p x = (case p of NilPtr \<Rightarrow> h | Ptr a \<Rightarrow> h[a := x])"

definition alloc :: "Version \<Rightarrow> heap \<Rightarrow> ptr \<times> heap" where
  "alloc x h = (Ptr (length h), h @ [x])"

subsection \<open>Setters\<close>

definition SetMajor :: "ptr \<Rightarrow> go_int \<Rightarrow> heap \<Rightarrow> (ptr \<times> heap) option" where
  "SetMajor v version h =
     (case load h v of None \<Rightarrow> None
      | Some x \<Rightarrow> Some (v, store h v (x\<lparr>major := version\<rparr>)))"

definition SetMinor :: "ptr \<Rightarrow> go_int \<Rightarrow> heap \<Rightarrow> (ptr \<times> heap) option" where
  "SetMinor v version h =
     (case load h v of None \<Rightarrow> None
      | Some x \<Rightarrow> Some (v, store h v (x\<lparr>minor := version\<rparr>)))"

definition SetPatch :: "ptr \<Rightarrow> go_int \<Rightarrow> heap \<Rightarrow> (ptr \<times> heap) option" where
  "SetPatch v version h =
     (case load h v of None \<Rightarrow> None
      | Some x \<Rightarrow> Some (v, store h v (x\<lparr>patch := version\<rparr>)))"

definition SetSuffix :: "ptr \<Rightarrow> string list \<Rightarrow> heap \<Rightarrow> (ptr \<times> heap) option" where
  "SetSuffix v elements h =
     (case load h v of None \<Rightarrow> None
      | Some x \<Rightarrow>
          Some (v, store h v
            (if length elements > 0 then (x\<lparr>suffix := []\<rparr>)\<lparr>suffix := Join elements ''.''\<rparr>
             else x\<lparr>suffix := []\<rparr>)))"

definition Set :: "ptr \<Rightarrow> go_int \<Rightarrow> go_int \<Rightarrow> go_int \<Rightarrow> string list \<Rightarrow> heap \<Rightarrow> (ptr \<times> heap) option" where
  "Set v major' minor' patch' suffixes h =
     (case SetMajor v major' h of None \<Rightarrow> None
      | Some (v1, h1) \<Rightarrow>
     (case SetMinor v1 minor' h1 of None \<Rightarrow> None
      | Some (v2, h2) \<Rightarrow>
     (case SetPatch v2 patch' h2 of None \<Rightarrow> None
      | Some (v3, h3) \<Rightarrow> SetSuffix v3 suffixes h3)))"

subsection \<open>Formatting and construction\<close>

definition String :: "ptr \<Rightarrow> heap \<Rightarrow> string option" where
  "String v h =
     (case load h v of None \<Rightarrow> None
      | Some x \<Rightarrow>
          (let s = (if minor x = 0 \<and> patch x = 0 then ''v'' @ fmt_d (major x)
                    else if patch x = 0 then ''v'' @ fmt_d (major x) @ ''.'' @ fmt_d (minor x)
                    else ''v'' @ fmt_d (major x) @ ''.'' @ fmt_d (minor x) @ ''.'' @ fmt_d (patch x))
           in Some (if suffix x \<noteq> [] then s @ ''-'' @ suffix x else s)))"

definition NewVersion :: "heap \<Rightarrow> ptr \<times> heap" where
  "NewVersion h = alloc \<lparr>major = 0, minor = 0, patch = 0, suffix = []\<rparr> h"

subsection \<open>Parsing\<close>

text \<open>
  The result is the pointer, the error (\<open>None\<close> is nil) and the store; \<open>None\<close> for the
  whole would be a panic. The three conversions are the three stages of the source, each
  returning early on its error.
\<close>

definition NewVersionFromString :: "string \<Rightarrow> heap \<Rightarrow> ((ptr \<times> error option) \<times> heap) option" where
  "NewVersionFromString str h0 =
     (case alloc \<lparr>major = 0, minor = 0, patch = 0, suffix = []\<rparr> h0 of (version, h1) \<Rightarrow>
      let matches = FindStringSubmatch reSemVer str in
      if length matches \<noteq> 3 then Some ((version, Some (InvalidVersionFormat str)), h1)
      else
        let versionNumbers = Split (matches ! 1) (CHR ''.'') in
        if length versionNumbers < 1 \<or> length versionNumbers > 3
        then Some ((version, Some (InvalidVersionFormat str)), h1)
        else
          (case Atoi (versionNumbers ! 0) of
             None \<Rightarrow> Some ((version, Some (InvalidMajorVersion (versionNumbers ! 0))), h1)
           | Some major' \<Rightarrow>
          (case SetMajor version major' h1 of None \<Rightarrow> None
           | Some (_, h2) \<Rightarrow>
          (case (if length versionNumbers \<ge> 2
                 then (case Atoi (versionNumbers ! 1) of
                         None \<Rightarrow> Inl (InvalidMinorVersion (versionNumbers ! 1))
                       | Some minor' \<Rightarrow> Inr (SetMinor version minor' h2))
                 else Inr (Some (version, h2))) of
             Inl e \<Rightarrow> Some ((version, Some e), h2)
           | Inr None \<Rightarrow> None
           | Inr (Some (_, h3)) \<Rightarrow>
          (case (if length versionNumbers = 3
                 then (case Atoi (versionNumbers ! 2) of
                         None \<Rightarrow> Inl (InvalidPatchVersion (versionNumbers ! 2))
                       | Some patch' \<Rightarrow> Inr (SetPatch version patch' h3))
                 else Inr (Some (version, h3))) of
             Inl e \<Rightarrow> Some ((version, Some e), h3)
           | Inr None \<Rightarrow> None
           | Inr (Some (_, h4)) \<Rightarrow>
          (case SetSuffix version [matches ! 2] h4 of None \<Rightarrow> None
           | Some (_, h5) \<Rightarrow> Some ((version, None), h5)))))))"

definition SetFromString :: "ptr \<Rightarrow> string \<Rightarrow> heap \<Rightarrow> (ptr \<times> heap) option" where
  "SetFromString v str h =
     (case NewVersionFromString str h of None \<Rightarrow> None
      | Some ((version, err), h') \<Rightarrow> if err \<noteq> None then Some (v, h') else Some (version, h'))"

definition IsValidVersionString :: "string \<Rightarrow> heap \<Rightarrow> (bool \<times> heap) option" where
  "IsValidVersionString version h =
     (case NewVersionFromString version h of None \<Rightarrow> None
      | Some ((_, err), h') \<Rightarrow> Some (err = None, h'))"


subsection \<open>Sorting\<close>










section \<open>A direct description of the match of \<open>reSemVer\<close>\<close>

text \<open>
  These functions are not part of the model: they say in closed form what the
  backtracking search returns for \<open>reSemVer\<close>, and are proved equal to it below
  (\<open>FindStringSubmatch_none\<close>, \<open>FindStringSubmatch_some\<close>), so that properties of every
  input can be proved from them.
\<close>

definition starts_digit :: "string \<Rightarrow> bool" where
  "starts_digit s = (s \<noteq> [] \<and> is_digit (hd s))"

definition starts_with :: "char \<Rightarrow> string \<Rightarrow> bool" where
  "starts_with x s = (s \<noteq> [] \<and> hd s = x)"

definition digits_dot :: "string \<Rightarrow> bool" where
  "digits_dot s = (starts_digit s \<and> starts_with CHR ''.'' (dropWhile is_digit s))"

definition not_nl :: "char \<Rightarrow> bool" where
  "not_nl x = (x \<noteq> CHR 0x0A)"

definition numeric_run :: "string \<Rightarrow> string \<times> string" where
  "numeric_run s =
     (let d1 = takeWhile is_digit s; r1 = dropWhile is_digit s in
      if starts_with CHR ''.'' r1 \<and> starts_digit (tl r1) then
        let d2 = takeWhile is_digit (tl r1); r2 = dropWhile is_digit (tl r1) in
        if starts_with CHR ''.'' r2 \<and> starts_digit (tl r2) then
          (d1 @ ''.'' @ d2 @ ''.'' @ takeWhile is_digit (tl r2), dropWhile is_digit (tl r2))
        else (d1 @ ''.'' @ d2, r2)
      else (d1, r1))"

definition strip_v :: "string \<Rightarrow> string" where
  "strip_v s =
     (if (starts_with CHR ''v'' s \<or> starts_with CHR ''V'' s) \<and> starts_digit (tl s) then tl s else s)"

definition strip_hyphen :: "string \<Rightarrow> string" where
  "strip_hyphen r = (if starts_with CHR ''-'' r then tl r else r)"

definition match_at :: "string \<Rightarrow> (string \<times> string) option" where
  "match_at s =
     (if starts_digit (strip_v s)
      then Some (fst (numeric_run (strip_v s)),
                 takeWhile not_nl (strip_hyphen (snd (numeric_run (strip_v s)))))
      else None)"

fun first_match :: "string \<Rightarrow> (string \<times> string) option" where
  "first_match [] = None"
| "first_match (x # t) = (case match_at (x # t) of Some g \<Rightarrow> Some g | None \<Rightarrow> first_match t)"

text \<open>
  What a match that starts at the first byte leaves unread, and the text it covers
  (element 0 of the result of \<open>FindStringSubmatch\<close>).
\<close>

definition rest_at :: "string \<Rightarrow> string" where
  "rest_at s = dropWhile not_nl (strip_hyphen (snd (numeric_run (strip_v s))))"

definition whole_at :: "string \<Rightarrow> string" where
  "whole_at s = take (length s - length (rest_at s)) s"

section \<open>Properties of the stored versions\<close>

text \<open>Components that are not negative.\<close>

definition non_negative :: "Version \<Rightarrow> bool" where
  "non_negative x = (0 \<le>s major x \<and> 0 \<le>s minor x \<and> 0 \<le>s patch x)"

text \<open>
  The match of \<open>reSemVer\<close> in a text has two hyphens right after its numeric group: the
  matched text begins with the optional \<open>v\<close> or \<open>V\<close>, the numeric group, and \<open>--\<close>.
\<close>

definition hyphens_follow_run :: "string \<Rightarrow> bool" where
  "hyphens_follow_run str =
     (case FindStringSubmatch reSemVer str of
        [w, g1, g2] \<Rightarrow>
          list_ex (\<lambda>pv. take (length (pv @ g1) + 2) w = pv @ g1 @ ''--'') [[], ''v'', ''V'']
      | _ \<Rightarrow> False)"

section \<open>Evaluation on concrete inputs\<close>

declare FindStringSubmatch.simps [simp del]

declare re_match.simps [simp del]

lemmas re_eval =
  re_match.simps FindStringSubmatch.simps reSemVer_def Plus_def Opt_def Rep02_def is_digit_def group_def
  numeral_2_eq_2

lemmas atoi_eval = Atoi_def is_digit_def digits_value_def digit_val_def

lemma load_fresh: "load (h @ [x]) (Ptr (length h)) = Some x"
  by (simp add: load_def)

lemma store_fresh: "store (h @ [x]) (Ptr (length h)) y = h @ [y]"
  by (simp add: store_def)

lemma SetMajor_fresh:
  "SetMajor (Ptr (length h)) n (h @ [x]) = Some (Ptr (length h), h @ [x\<lparr>major := n\<rparr>])"
  by (simp add: SetMajor_def load_fresh store_fresh)

lemma SetMinor_fresh:
  "SetMinor (Ptr (length h)) n (h @ [x]) = Some (Ptr (length h), h @ [x\<lparr>minor := n\<rparr>])"
  by (simp add: SetMinor_def load_fresh store_fresh)

lemma SetPatch_fresh:
  "SetPatch (Ptr (length h)) n (h @ [x]) = Some (Ptr (length h), h @ [x\<lparr>patch := n\<rparr>])"
  by (simp add: SetPatch_def load_fresh store_fresh)

lemma SetSuffix_fresh:
  "SetSuffix (Ptr (length h)) [e] (h @ [x]) = Some (Ptr (length h), h @ [x\<lparr>suffix := e\<rparr>])"
  by (simp add: SetSuffix_def load_fresh store_fresh)

lemmas fresh = SetMajor_fresh SetMinor_fresh SetPatch_fresh SetSuffix_fresh

lemmas parse_eval = NewVersionFromString_def alloc_def Let_def fresh

lemma Atoi_1: "Atoi ''1'' = Some 1"
  by (simp add: atoi_eval)

lemma Atoi_2: "Atoi ''2'' = Some 2"
  by (simp add: atoi_eval)

lemma Atoi_3: "Atoi ''3'' = Some 3"
  by (simp add: atoi_eval)

lemma find_abc12: "FindStringSubmatch reSemVer ''abc1.2'' = [''1.2'', ''1.2'', []]"
  by (simp add: re_eval)

lemma find_1234: "FindStringSubmatch reSemVer ''1.2.3.4'' = [''1.2.3.4'', ''1.2.3'', ''.4'']"
  by (simp add: re_eval)

lemma find_v123beta:
  "FindStringSubmatch reSemVer ''v1.2.3-beta'' = [''v1.2.3-beta'', ''1.2.3'', ''beta'']"
  by (simp add: re_eval)

lemma find_vX: "FindStringSubmatch reSemVer ''vX'' = []"
  by (simp add: re_eval)

section \<open>The match of \<open>reSemVer\<close> in closed form\<close>

lemma star_digit_Nil: "re_match (Star Digit) [] c = [([], c)]"
  by (simp add: re_match.simps)

lemma star_digit_Cons:
  "re_match (Star Digit) (y # t) c =
     (if is_digit y then re_match (Star Digit) t c @ [(y # t, c)] else [(y # t, c)])"
  by (simp add: re_match.simps(3) re_match.simps(7) [of Digit "y # t"])

lemma star_digit:
  "\<exists>L. re_match (Star Digit) s c = (dropWhile is_digit s, c) # L \<and> (\<forall>p\<in>set L. starts_digit (fst p))"
proof (induction s)
  case Nil
  show ?case by (simp add: star_digit_Nil)
next
  case (Cons y t)
  then obtain L where L: "re_match (Star Digit) t c = (dropWhile is_digit t, c) # L"
    "\<forall>p\<in>set L. starts_digit (fst p)" by blast
  show ?case
  proof (cases "is_digit y")
    case True
    have "re_match (Star Digit) (y # t) c = (dropWhile is_digit (y # t), c) # (L @ [(y # t, c)])"
      using True L(1) by (simp add: star_digit_Cons)
    moreover have "\<forall>p\<in>set (L @ [(y # t, c)]). starts_digit (fst p)"
      using True L(2) by (simp add: starts_digit_def)
    ultimately show ?thesis by blast
  next
    case False
    then have "re_match (Star Digit) (y # t) c = (dropWhile is_digit (y # t), c) # []"
      by (simp add: star_digit_Cons)
    then show ?thesis by simp
  qed
qed

lemma plus_digit_unfold:
  "re_match (Plus Digit) s c = (if starts_digit s then re_match (Star Digit) (tl s) c else [])"
  by (cases s) (simp_all add: Plus_def starts_digit_def re_match.simps(3,5))

lemma plus_digit_none: "\<not> starts_digit s \<Longrightarrow> re_match (Plus Digit) s c = []"
  by (simp add: plus_digit_unfold)

lemma plus_digit:
  assumes "starts_digit s"
  shows "\<exists>L. re_match (Plus Digit) s c = (dropWhile is_digit s, c) # L
             \<and> (\<forall>p\<in>set L. starts_digit (fst p))"
proof -
  from assms obtain y t where s: "s = y # t" and y: "is_digit y"
    by (cases s) (auto simp: starts_digit_def)
  from star_digit [of t c] show ?thesis
    using assms by (simp add: plus_digit_unfold s y)
qed

lemma digit_not_dot: "is_digit x \<Longrightarrow> x \<noteq> CHR ''.''"
  by (auto simp: is_digit_def)

lemma lit_match: "re_match (Lit x) s c = (if starts_with x s then [(tl s, c)] else [])"
  by (cases s) (auto simp: starts_with_def re_match.simps(2))

lemma lit_dot_on_digit: "starts_digit s \<Longrightarrow> re_match (Lit CHR ''.'') s c = []"
  by (cases s) (auto simp: starts_digit_def lit_match starts_with_def dest: digit_not_dot)

lemma concat_map_empty: "(\<forall>p\<in>set L. f p = []) \<Longrightarrow> concat (map f L) = []"
  by (induction L) auto

lemma digits_dot_match:
  "re_match (Cat (Plus Digit) (Lit CHR ''.'')) s c =
     (if digits_dot s then [(tl (dropWhile is_digit s), c)] else [])"
proof (cases "starts_digit s")
  case False
  then show ?thesis by (simp add: re_match.simps(5) plus_digit_none digits_dot_def)
next
  case True
  from plus_digit [OF True, of c] obtain L where
    L: "re_match (Plus Digit) s c = (dropWhile is_digit s, c) # L"
       "\<forall>p\<in>set L. starts_digit (fst p)" by blast
  have "concat (map (\<lambda>p. re_match (Lit CHR ''.'') (fst p) (snd p)) L) = []"
    using L(2) by (intro concat_map_empty) (simp add: lit_dot_on_digit)
  then show ?thesis
    using True by (simp add: re_match.simps(5) L(1) lit_match digits_dot_def)
qed

lemma rep02_match:
  "re_match (Rep02 (Cat (Plus Digit) (Lit CHR ''.''))) s c =
     (if digits_dot s
      then (if digits_dot (tl (dropWhile is_digit s))
            then [(tl (dropWhile is_digit (tl (dropWhile is_digit s))), c)] else [])
           @ [(tl (dropWhile is_digit s), c), (s, c)]
      else [(s, c)])"
  by (simp add: Rep02_def Opt_def re_match.simps(1) re_match.simps(6)
      re_match.simps(5) [of "Cat (Plus Digit) (Lit CHR ''.'')"] digits_dot_match)

lemma starts_with_hd_tl: "starts_with x r \<Longrightarrow> x # tl r = r"
  by (cases r) (auto simp: starts_with_def)

lemma numeric_run_split: "fst (numeric_run s) @ snd (numeric_run s) = s"
proof -
  define r1 where "r1 = dropWhile is_digit s"
  define r2 where "r2 = dropWhile is_digit (tl r1)"
  have s: "takeWhile is_digit s @ r1 = s" by (simp add: r1_def)
  have t1: "takeWhile is_digit (tl r1) @ r2 = tl r1" by (simp add: r2_def)
  have t2: "takeWhile is_digit (tl r2) @ dropWhile is_digit (tl r2) = tl r2" by simp
  show ?thesis
  proof (cases "starts_with CHR ''.'' r1 \<and> starts_digit (tl r1)")
    case False
    then show ?thesis using s by (auto simp: numeric_run_def Let_def r1_def)
  next
    case c1: True
    then have e1: "CHR ''.'' # tl r1 = r1" by (simp add: starts_with_hd_tl)
    show ?thesis
    proof (cases "starts_with CHR ''.'' r2 \<and> starts_digit (tl r2)")
      case False
      have "takeWhile is_digit s @ CHR ''.'' # takeWhile is_digit (tl r1) @ r2 = s"
        using s t1 e1 by simp
      moreover have "(starts_with CHR ''.'' r2 \<and> starts_digit (tl r2)) = False"
        using False by simp
      ultimately show ?thesis using c1
        by (auto simp add: numeric_run_def Let_def r1_def [symmetric] r2_def [symmetric])
    next
      case c2: True
      then have e2: "CHR ''.'' # tl r2 = r2" by (simp add: starts_with_hd_tl)
      have "takeWhile is_digit s @ CHR ''.'' # takeWhile is_digit (tl r1) @ CHR ''.'' #
            takeWhile is_digit (tl r2) @ dropWhile is_digit (tl r2) = s"
        using s t1 e1 e2 by simp
      then show ?thesis using c1 c2
        by (simp add: numeric_run_def Let_def r1_def [symmetric] r2_def [symmetric])
    qed
  qed
qed

lemma numeric_run_take:
  "take (length s - length (snd (numeric_run s))) s = fst (numeric_run s)"
proof -
  have "take (length (fst (numeric_run s))) (fst (numeric_run s) @ snd (numeric_run s))
        = fst (numeric_run s)" by simp
  moreover have "length s - length (snd (numeric_run s)) = length (fst (numeric_run s))"
    by (metis numeric_run_split length_append add_diff_cancel_right')
  ultimately show ?thesis by (simp add: numeric_run_split)
qed

text \<open>The numeric group, without its capture.\<close>

lemma numeric_none:
  assumes "\<not> starts_digit s"
  shows "re_match (Cat (Rep02 (Cat (Plus Digit) (Lit CHR ''.''))) (Plus Digit)) s c = []"
  using assms by (simp add: re_match.simps(5) rep02_match digits_dot_def plus_digit_none)

lemma numeric_first:
  assumes "starts_digit s"
  shows "\<exists>L. re_match (Cat (Rep02 (Cat (Plus Digit) (Lit CHR ''.''))) (Plus Digit)) s c
            = (snd (numeric_run s), c) # L"
proof -
  define r1 where "r1 = dropWhile is_digit s"
  define r2 where "r2 = dropWhile is_digit (tl r1)"
  have P: "\<And>t. starts_digit t \<Longrightarrow> \<exists>L. re_match (Plus Digit) t c = (dropWhile is_digit t, c) # L"
    using plus_digit by blast
  have N: "\<And>t. \<not> starts_digit t \<Longrightarrow> re_match (Plus Digit) t c = []"
    by (rule plus_digit_none)
  from P [OF assms] obtain L0 where L0: "re_match (Plus Digit) s c = (r1, c) # L0"
    by (auto simp: r1_def)
  show ?thesis
  proof (cases "starts_with CHR ''.'' r1")
    case False
    then have "snd (numeric_run s) = r1" by (simp add: numeric_run_def Let_def r1_def)
    moreover have "\<not> digits_dot s" using False by (simp add: digits_dot_def r1_def)
    ultimately show ?thesis by (simp add: re_match.simps(5) rep02_match L0)
  next
    case dot1: True
    then have dd: "digits_dot s" using assms by (simp add: digits_dot_def r1_def)
    show ?thesis
    proof (cases "starts_digit (tl r1)")
      case False
      then have "snd (numeric_run s) = r1" by (simp add: numeric_run_def Let_def r1_def)
      moreover have "\<not> digits_dot (tl r1)" using False by (simp add: digits_dot_def)
      ultimately show ?thesis using dd False
        by (simp add: re_match.simps(5) rep02_match L0 N r1_def [symmetric])
    next
      case dig2: True
      from P [OF dig2] obtain L1 where L1: "re_match (Plus Digit) (tl r1) c = (r2, c) # L1"
        by (auto simp: r2_def)
      show ?thesis
      proof (cases "starts_with CHR ''.'' r2 \<and> starts_digit (tl r2)")
        case False
        then have "(starts_with CHR ''.'' r2 \<and> starts_digit (tl r2)) = False" by simp
        then have run: "snd (numeric_run s) = r2"
          using dot1 dig2 by (auto simp add: numeric_run_def Let_def r1_def [symmetric] r2_def [symmetric])
        show ?thesis
        proof (cases "digits_dot (tl r1)")
          case True
          then have "\<not> starts_digit (tl r2)" using False by (simp add: digits_dot_def r2_def)
          then show ?thesis using dd True run
            by (simp add: re_match.simps(5) rep02_match L1 N r1_def [symmetric] r2_def [symmetric])
        next
          case False
          then show ?thesis using dd run
            by (simp add: re_match.simps(5) rep02_match L1 r1_def [symmetric])
        qed
      next
        case True
        then have run: "snd (numeric_run s) = dropWhile is_digit (tl r2)"
          using dot1 dig2 by (simp add: numeric_run_def Let_def r1_def [symmetric] r2_def [symmetric])
        have dd2: "digits_dot (tl r1)" using True dig2 by (simp add: digits_dot_def r2_def)
        from True P obtain L2 where
          "re_match (Plus Digit) (tl r2) c = (dropWhile is_digit (tl r2), c) # L2" by blast
        then show ?thesis using dd dd2 run
          by (simp add: re_match.simps(5) rep02_match r1_def [symmetric] r2_def [symmetric])
      qed
    qed
  qed
qed


lemma group1_none:
  "\<not> starts_digit s \<Longrightarrow>
   re_match (Cap 1 (Cat (Rep02 (Cat (Plus Digit) (Lit CHR ''.''))) (Plus Digit))) s c = []"
  by (simp add: re_match.simps(8) numeric_none)

lemma group1_first:
  assumes "starts_digit s"
  shows "\<exists>L. re_match (Cap 1 (Cat (Rep02 (Cat (Plus Digit) (Lit CHR ''.''))) (Plus Digit))) s c
            = (snd (numeric_run s), c(1 \<mapsto> fst (numeric_run s))) # L"
proof -
  from numeric_first [OF assms, of c] obtain L where
    "re_match (Cat (Rep02 (Cat (Plus Digit) (Lit CHR ''.''))) (Plus Digit)) s c
       = (snd (numeric_run s), c) # L" ..
  then show ?thesis by (simp add: re_match.simps(8) numeric_run_take)
qed

lemma star_any_Nil: "re_match (Star AnyNotNL) [] c = [([], c)]"
  by (simp add: re_match.simps)

lemma star_any_Cons:
  "re_match (Star AnyNotNL) (y # t) c =
     (if not_nl y then re_match (Star AnyNotNL) t c @ [(y # t, c)] else [(y # t, c)])"
  by (simp add: re_match.simps(4) re_match.simps(7) [of AnyNotNL "y # t"] not_nl_def)

lemma star_any: "\<exists>L. re_match (Star AnyNotNL) s c = (dropWhile not_nl s, c) # L"
proof (induction s)
  case Nil
  show ?case by (simp add: star_any_Nil)
next
  case (Cons y t)
  then obtain L where "re_match (Star AnyNotNL) t c = (dropWhile not_nl t, c) # L" ..
  then show ?case by (simp add: star_any_Cons)
qed

lemma take_takeWhile: "take (length s - length (dropWhile P s)) s = takeWhile P s"
proof -
  have "length s - length (dropWhile P s) = length (takeWhile P s)"
    by (metis takeWhile_dropWhile_id length_append add_diff_cancel_right')
  then show ?thesis
    by (metis takeWhile_dropWhile_id append_eq_conv_conj)
qed

lemma suffix_first:
  "\<exists>L. re_match (Cap 2 (Star AnyNotNL)) s c
        = (dropWhile not_nl s, c(2 \<mapsto> takeWhile not_nl s)) # L"
proof -
  from star_any [of s c] obtain L where
    "re_match (Star AnyNotNL) s c = (dropWhile not_nl s, c) # L" ..
  then show ?thesis by (simp add: re_match.simps(8) take_takeWhile)
qed

lemma opt_hyphen:
  "\<exists>L. re_match (Opt (Lit CHR ''-'')) r c = (strip_hyphen r, c) # L"
  by (simp add: Opt_def re_match.simps(1,6) lit_match strip_hyphen_def)

lemma tail_first:
  "\<exists>L. re_match (Cat (Opt (Lit CHR ''-'')) (Cap 2 (Star AnyNotNL))) r c
        = (dropWhile not_nl (strip_hyphen r), c(2 \<mapsto> takeWhile not_nl (strip_hyphen r))) # L"
proof -
  from opt_hyphen [of r c] obtain L0 where
    a: "re_match (Opt (Lit CHR ''-'')) r c = (strip_hyphen r, c) # L0" ..
  from suffix_first [of "strip_hyphen r" c] obtain L1 where
    b: "re_match (Cap 2 (Star AnyNotNL)) (strip_hyphen r) c
        = (dropWhile not_nl (strip_hyphen r), c(2 \<mapsto> takeWhile not_nl (strip_hyphen r))) # L1" ..
  show ?thesis by (simp add: re_match.simps(5) a b)
qed

lemma core_none:
  "\<not> starts_digit t \<Longrightarrow>
   re_match (Cat (Cap 1 (Cat (Rep02 (Cat (Plus Digit) (Lit CHR ''.''))) (Plus Digit)))
              (Cat (Opt (Lit CHR ''-'')) (Cap 2 (Star AnyNotNL)))) t c = []"
  by (simp add: re_match.simps(5) [of "Cap 1 r" for r] group1_none del: One_nat_def)

lemma core_first:
  assumes "starts_digit t"
  shows "\<exists>rest L.
     re_match (Cat (Cap 1 (Cat (Rep02 (Cat (Plus Digit) (Lit CHR ''.''))) (Plus Digit)))
                (Cat (Opt (Lit CHR ''-'')) (Cap 2 (Star AnyNotNL)))) t c
     = (rest, c(1 \<mapsto> fst (numeric_run t),
                2 \<mapsto> takeWhile not_nl (strip_hyphen (snd (numeric_run t))))) # L"
proof -
  from group1_first [OF assms, of c] obtain L0 where
    a: "re_match (Cap 1 (Cat (Rep02 (Cat (Plus Digit) (Lit CHR ''.''))) (Plus Digit))) t c
        = (snd (numeric_run t), c(1 \<mapsto> fst (numeric_run t))) # L0" ..
  from tail_first [of "snd (numeric_run t)" "c(1 \<mapsto> fst (numeric_run t))"] obtain L1 where
    b: "re_match (Cat (Opt (Lit CHR ''-'')) (Cap 2 (Star AnyNotNL))) (snd (numeric_run t))
          (c(1 \<mapsto> fst (numeric_run t)))
        = (dropWhile not_nl (strip_hyphen (snd (numeric_run t))),
           c(1 \<mapsto> fst (numeric_run t),
             2 \<mapsto> takeWhile not_nl (strip_hyphen (snd (numeric_run t))))) # L1" ..
  show ?thesis by (simp add: re_match.simps(5) [of "Cap 1 r" for r] a b del: One_nat_def)
qed

lemma prefix_v:
  "re_match (Alt (Lit CHR ''v'') (Alt (Lit CHR ''V'') Eps)) s c =
     (if starts_with CHR ''v'' s then [(tl s, c)] else [])
     @ (if starts_with CHR ''V'' s then [(tl s, c)] else []) @ [(s, c)]"
  by (simp add: re_match.simps(1,6) lit_match)

lemma v_not_digit: "starts_with CHR ''v'' s \<or> starts_with CHR ''V'' s \<Longrightarrow> \<not> starts_digit s"
  by (auto simp: starts_with_def starts_digit_def is_digit_def)

lemma reSemVer_none:
  assumes "match_at s = None"
  shows "re_match reSemVer s c = []"
proof -
  have n: "\<not> starts_digit (strip_v s)"
    using assms by (simp add: match_at_def split: if_splits)
  then have s: "\<not> starts_digit s"
    using v_not_digit [of s] by (auto simp: strip_v_def split: if_splits)
  have t: "starts_with CHR ''v'' s \<or> starts_with CHR ''V'' s \<Longrightarrow> \<not> starts_digit (tl s)"
    using n by (auto simp: strip_v_def split: if_splits)
  show ?thesis
    using s t
    by (auto simp add: reSemVer_def re_match.simps(5) [of "Alt a b" for a b] prefix_v core_none
        simp del: One_nat_def)
qed

lemma reSemVer_first:
  assumes "match_at s = Some (g1, g2)"
  shows "\<exists>rest L. re_match reSemVer s c = (rest, c(1 \<mapsto> g1, 2 \<mapsto> g2)) # L"
proof -
  have d: "starts_digit (strip_v s)"
    and g1: "g1 = fst (numeric_run (strip_v s))"
    and g2: "g2 = takeWhile not_nl (strip_hyphen (snd (numeric_run (strip_v s))))"
    using assms by (auto simp: match_at_def split: if_splits)
  from core_first [OF d, of c] obtain rest L where
    core: "re_match (Cat (Cap 1 (Cat (Rep02 (Cat (Plus Digit) (Lit CHR ''.''))) (Plus Digit)))
                (Cat (Opt (Lit CHR ''-'')) (Cap 2 (Star AnyNotNL)))) (strip_v s) c
           = (rest, c(1 \<mapsto> g1, 2 \<mapsto> g2)) # L"
    unfolding g1 g2 by blast
  show ?thesis
  proof (cases "starts_with CHR ''v'' s \<or> starts_with CHR ''V'' s")
    case False
    then have "strip_v s = s" by (simp add: strip_v_def)
    then show ?thesis using False core
      by (simp add: reSemVer_def re_match.simps(5) [of "Alt a b" for a b] prefix_v
          del: One_nat_def)
  next
    case True
    then have "\<not> starts_digit s" by (rule v_not_digit)
    then have "strip_v s = tl s" using d by (auto simp: strip_v_def split: if_splits)
    then show ?thesis using True core
      by (auto simp add: reSemVer_def re_match.simps(5) [of "Alt a b" for a b] prefix_v
          simp del: One_nat_def)
  qed
qed

lemma NumSubexp_reSemVer: "NumSubexp reSemVer = Suc (Suc 0)"
  by (simp add: reSemVer_def Rep02_def Opt_def Plus_def)

lemma match_at_Nil: "match_at [] = None"
  by (simp add: match_at_def strip_v_def starts_digit_def starts_with_def)

lemma FindStringSubmatch_none:
  "first_match s = None \<Longrightarrow> FindStringSubmatch reSemVer s = []"
proof (induction s)
  case Nil
  show ?case
    by (simp add: FindStringSubmatch.simps [of _ "[]"] reSemVer_none match_at_Nil)
next
  case (Cons x t)
  then have "match_at (x # t) = None" "first_match t = None"
    by (auto split: option.splits)
  then show ?case using Cons.IH
    by (simp add: FindStringSubmatch.simps [of _ "x # t"] reSemVer_none)
qed

lemma FindStringSubmatch_some:
  "first_match s = Some (g1, g2) \<Longrightarrow> \<exists>w. FindStringSubmatch reSemVer s = [w, g1, g2]"
proof (induction s)
  case Nil
  then show ?case by simp
next
  case (Cons x t)
  show ?case
  proof (cases "match_at (x # t)")
    case None
    then have "first_match t = Some (g1, g2)" using Cons.prems by simp
    then show ?thesis using Cons.IH None
      by (simp add: FindStringSubmatch.simps [of _ "x # t"] reSemVer_none)
  next
    case (Some g)
    then have "match_at (x # t) = Some (g1, g2)" using Cons.prems by simp
    from reSemVer_first [OF this, of Map.empty] obtain rest L where
      "re_match reSemVer (x # t) Map.empty = (rest, [1 \<mapsto> g1, 2 \<mapsto> g2]) # L" by blast
    then show ?thesis
      by (simp add: FindStringSubmatch.simps [of _ "x # t"] NumSubexp_reSemVer group_def)
  qed
qed

text \<open>The text that the match covers.\<close>

lemma core_first_rest:
  assumes "starts_digit t"
  shows "\<exists>L.
     re_match (Cat (Cap 1 (Cat (Rep02 (Cat (Plus Digit) (Lit CHR ''.''))) (Plus Digit)))
                (Cat (Opt (Lit CHR ''-'')) (Cap 2 (Star AnyNotNL)))) t c
     = (dropWhile not_nl (strip_hyphen (snd (numeric_run t))),
        c(1 \<mapsto> fst (numeric_run t),
          2 \<mapsto> takeWhile not_nl (strip_hyphen (snd (numeric_run t))))) # L"
proof -
  from group1_first [OF assms, of c] obtain L0 where
    a: "re_match (Cap 1 (Cat (Rep02 (Cat (Plus Digit) (Lit CHR ''.''))) (Plus Digit))) t c
        = (snd (numeric_run t), c(1 \<mapsto> fst (numeric_run t))) # L0" ..
  from tail_first [of "snd (numeric_run t)" "c(1 \<mapsto> fst (numeric_run t))"] obtain L1 where
    b: "re_match (Cat (Opt (Lit CHR ''-'')) (Cap 2 (Star AnyNotNL))) (snd (numeric_run t))
          (c(1 \<mapsto> fst (numeric_run t)))
        = (dropWhile not_nl (strip_hyphen (snd (numeric_run t))),
           c(1 \<mapsto> fst (numeric_run t),
             2 \<mapsto> takeWhile not_nl (strip_hyphen (snd (numeric_run t))))) # L1" ..
  show ?thesis by (simp add: re_match.simps(5) [of "Cap 1 r" for r] a b del: One_nat_def)
qed

lemma reSemVer_first_rest:
  assumes "match_at s = Some (g1, g2)"
  shows "\<exists>L. re_match reSemVer s c = (rest_at s, c(1 \<mapsto> g1, 2 \<mapsto> g2)) # L"
proof -
  have d: "starts_digit (strip_v s)"
    and g1: "g1 = fst (numeric_run (strip_v s))"
    and g2: "g2 = takeWhile not_nl (strip_hyphen (snd (numeric_run (strip_v s))))"
    using assms by (auto simp: match_at_def split: if_splits)
  from core_first_rest [OF d, of c] obtain L where
    core: "re_match (Cat (Cap 1 (Cat (Rep02 (Cat (Plus Digit) (Lit CHR ''.''))) (Plus Digit)))
                (Cat (Opt (Lit CHR ''-'')) (Cap 2 (Star AnyNotNL)))) (strip_v s) c
           = (rest_at s, c(1 \<mapsto> g1, 2 \<mapsto> g2)) # L"
    unfolding g1 g2 rest_at_def by blast
  show ?thesis
  proof (cases "starts_with CHR ''v'' s \<or> starts_with CHR ''V'' s")
    case False
    then have "strip_v s = s" by (simp add: strip_v_def)
    then show ?thesis using False core
      by (simp add: reSemVer_def re_match.simps(5) [of "Alt a b" for a b] prefix_v
          del: One_nat_def)
  next
    case True
    then have "\<not> starts_digit s" by (rule v_not_digit)
    then have "strip_v s = tl s" using d by (auto simp: strip_v_def split: if_splits)
    then show ?thesis using True core
      by (auto simp add: reSemVer_def re_match.simps(5) [of "Alt a b" for a b] prefix_v
          simp del: One_nat_def)
  qed
qed

lemma FindStringSubmatch_whole:
  "first_match s = Some (g1, g2) \<Longrightarrow>
   \<exists>t. match_at t = Some (g1, g2) \<and> FindStringSubmatch reSemVer s = [whole_at t, g1, g2]"
proof (induction s)
  case Nil
  then show ?case by simp
next
  case (Cons x t)
  show ?case
  proof (cases "match_at (x # t)")
    case None
    then have "first_match t = Some (g1, g2)" using Cons.prems by simp
    then show ?thesis using Cons.IH None
      by (simp add: FindStringSubmatch.simps [of _ "x # t"] reSemVer_none)
  next
    case (Some g)
    then have m: "match_at (x # t) = Some (g1, g2)" using Cons.prems by simp
    from reSemVer_first_rest [OF this, of Map.empty] obtain L where
      "re_match reSemVer (x # t) Map.empty = (rest_at (x # t), [1 \<mapsto> g1, 2 \<mapsto> g2]) # L" ..
    then have "FindStringSubmatch reSemVer (x # t) = [whole_at (x # t), g1, g2]"
      by (simp add: FindStringSubmatch.simps [of _ "x # t"] NumSubexp_reSemVer group_def
          whole_at_def)
    then show ?thesis using m by blast
  qed
qed

lemma strip_hyphen_parts:
  "\<exists>hy. r = hy @ strip_hyphen r
       \<and> (hy = ''-'' \<or> (hy = [] \<and> \<not> starts_with CHR ''-'' r))"
  by (cases r) (auto simp: strip_hyphen_def starts_with_def)

lemma strip_v_parts:
  "\<exists>pv. s = pv @ strip_v s \<and> (pv = [] \<or> pv = ''v'' \<or> pv = ''V'')"
  by (cases s) (auto simp: strip_v_def starts_with_def)

lemma whole_at_parts:
  assumes "match_at t = Some (g1, g2)"
  shows "\<exists>pv hy. whole_at t = pv @ g1 @ hy @ g2
           \<and> (pv = [] \<or> pv = ''v'' \<or> pv = ''V'')
           \<and> (hy = ''-'' \<or> (hy = [] \<and> \<not> starts_with CHR ''-'' g2))
           \<and> starts_digit g1"
proof -
  define r where "r = snd (numeric_run (strip_v t))"
  have d: "starts_digit (strip_v t)"
    and g1: "g1 = fst (numeric_run (strip_v t))"
    and g2: "g2 = takeWhile not_nl (strip_hyphen r)"
    using assms by (auto simp: match_at_def r_def split: if_splits)
  obtain pv where pv: "t = pv @ strip_v t" "pv = [] \<or> pv = ''v'' \<or> pv = ''V''"
    using strip_v_parts by blast
  obtain hy where hy: "r = hy @ strip_hyphen r"
    "hy = ''-'' \<or> (hy = [] \<and> \<not> starts_with CHR ''-'' r)"
    using strip_hyphen_parts by blast
  have run: "strip_v t = g1 @ r" by (simp add: g1 r_def numeric_run_split)
  have tl: "strip_hyphen r = g2 @ rest_at t" by (simp add: g2 rest_at_def r_def)
  have "t = (pv @ g1 @ hy @ g2) @ rest_at t"
    using pv(1) run hy(1) tl by (metis append_assoc)
  then have w: "whole_at t = pv @ g1 @ hy @ g2"
    unfolding whole_at_def by (metis append_eq_conv_conj length_append add_diff_cancel_right')
  have h2: "hy = ''-'' \<or> (hy = [] \<and> \<not> starts_with CHR ''-'' g2)"
  proof (cases "hy = ''-''")
    case True
    then show ?thesis by simp
  next
    case False
    then have "hy = []" "\<not> starts_with CHR ''-'' r" using hy(2) by auto
    then have "strip_hyphen r = r" by (simp add: strip_hyphen_def)
    then have "\<not> starts_with CHR ''-'' g2"
      using \<open>\<not> starts_with CHR ''-'' r\<close> unfolding g2 starts_with_def
      by (cases r) (auto split: if_splits)
    then show ?thesis using \<open>hy = []\<close> by simp
  qed
  have "takeWhile is_digit (strip_v t) \<noteq> []"
    using d by (cases "strip_v t") (auto simp: starts_digit_def)
  moreover have "\<exists>z. g1 = takeWhile is_digit (strip_v t) @ z"
    unfolding g1 by (auto simp: numeric_run_def Let_def)
  ultimately have "starts_digit g1"
    using d by (cases "strip_v t") (auto simp: starts_digit_def split: if_splits)
  then show ?thesis using w pv(2) h2 by blast
qed

section \<open>The store and the setters\<close>

lemma fmt_d_0: "fmt_d 0 = ''0''"
  by (simp add: fmt_d_def digit_char_def)

lemma fmt_d_1: "fmt_d 1 = ''1''"
  by (simp add: fmt_d_def digit_char_def)

lemma fmt_d_2: "fmt_d 2 = ''2''"
  by (simp add: fmt_d_def digit_char_def)

lemma fmt_d_3: "fmt_d 3 = ''3''"
  by (simp add: fmt_d_def digit_char_def)

lemma load_valid: "load h v = Some x \<Longrightarrow> \<exists>a. v = Ptr a \<and> a < length h \<and> h ! a = x"
  by (cases v) (auto simp: load_def split: if_splits)

lemma load_store: "load h v = Some x \<Longrightarrow> load (store h v y) v = Some y"
  by (cases v) (auto simp: load_def store_def split: if_splits)

lemma load_append: "load h v = Some x \<Longrightarrow> load (h @ ys) v = Some x"
  by (cases v) (auto simp: load_def nth_append split: if_splits)

lemma Set_result:
  assumes "load h v = Some x"
  shows "Set v ma mi pa sfx h =
         Some (v, store h v \<lparr>major = ma, minor = mi, patch = pa,
                 suffix = (if length sfx > 0 then Join sfx ''.'' else [])\<rparr>)"
proof -
  obtain a where v: "v = Ptr a" and a: "a < length h" and x: "h ! a = x"
    using load_valid [OF assms] by blast
  show ?thesis
    by (cases x) (simp add: Set_def SetMajor_def SetMinor_def SetPatch_def SetSuffix_def
        load_def store_def v a x)
qed

lemma NewVersionFromString_frame:
  "\<exists>err x. NewVersionFromString str h = Some ((Ptr (length h), err), h @ [x])"
  by (simp add: parse_eval split: option.splits)

lemma NewVersionFromString_error_exact:
  assumes "NewVersionFromString str h = Some ((p, Some e), h')"
  shows "\<exists>x. p = Ptr (length h) \<and> h' = h @ [x]
       \<and> (case e of
             InvalidVersionFormat t \<Rightarrow> x = \<lparr>major = 0, minor = 0, patch = 0, suffix = []\<rparr>
           | InvalidMajorVersion t \<Rightarrow> x = \<lparr>major = 0, minor = 0, patch = 0, suffix = []\<rparr>
           | InvalidMinorVersion t \<Rightarrow>
               (\<exists>m. Atoi (Split (FindStringSubmatch reSemVer str ! 1) CHR ''.'' ! 0) = Some m
                  \<and> x = \<lparr>major = m, minor = 0, patch = 0, suffix = []\<rparr>)
           | InvalidPatchVersion t \<Rightarrow>
               (\<exists>m n. Atoi (Split (FindStringSubmatch reSemVer str ! 1) CHR ''.'' ! 0) = Some m
                  \<and> Atoi (Split (FindStringSubmatch reSemVer str ! 1) CHR ''.'' ! 1) = Some n
                  \<and> x = \<lparr>major = m, minor = n, patch = 0, suffix = []\<rparr>))"
  using assms by (auto simp add: parse_eval split: option.splits if_splits)

lemma NewVersion_result:
  "NewVersion h = (Ptr (length h), h @ [\<lparr>major = 0, minor = 0, patch = 0, suffix = []\<rparr>])"
  by (simp add: NewVersion_def alloc_def)

lemma load_store_other: "w \<noteq> v \<Longrightarrow> load (store h v y) w = load h w"
  by (cases v; cases w) (auto simp: load_def store_def)

lemma SetMajor_effect:
  "load h v = Some x \<Longrightarrow>
   \<exists>h'. SetMajor v n h = Some (v, h') \<and> load h' v = Some (x\<lparr>major := n\<rparr>)
        \<and> (\<forall>w. w \<noteq> v \<longrightarrow> load h' w = load h w)"
  by (simp add: SetMajor_def load_store load_store_other)

lemma SetMinor_effect:
  "load h v = Some x \<Longrightarrow>
   \<exists>h'. SetMinor v n h = Some (v, h') \<and> load h' v = Some (x\<lparr>minor := n\<rparr>)
        \<and> (\<forall>w. w \<noteq> v \<longrightarrow> load h' w = load h w)"
  by (simp add: SetMinor_def load_store load_store_other)

lemma SetPatch_effect:
  "load h v = Some x \<Longrightarrow>
   \<exists>h'. SetPatch v n h = Some (v, h') \<and> load h' v = Some (x\<lparr>patch := n\<rparr>)
        \<and> (\<forall>w. w \<noteq> v \<longrightarrow> load h' w = load h w)"
  by (simp add: SetPatch_def load_store load_store_other)

lemma SetSuffix_effect:
  "load h v = Some x \<Longrightarrow>
   \<exists>h'. SetSuffix v es h = Some (v, h') \<and> load h' v = Some (x\<lparr>suffix := Join es ''.''\<rparr>)
        \<and> (\<forall>w. w \<noteq> v \<longrightarrow> load h' w = load h w)"
  by (cases es) (simp_all add: SetSuffix_def load_store load_store_other)

lemma Set_effect:
  "load h v = Some x \<Longrightarrow>
   \<exists>h'. Set v a b c es h = Some (v, h')
        \<and> load h' v = Some \<lparr>major = a, minor = b, patch = c, suffix = Join es ''.''\<rparr>
        \<and> (\<forall>w. w \<noteq> v \<longrightarrow> load h' w = load h w)"
  by (cases es) (simp_all add: Set_result load_store load_store_other)

lemma find_overflow:
  "FindStringSubmatch reSemVer ''1.99999999999999999999''
     = [''1.99999999999999999999'', ''1.99999999999999999999'', []]"
  by (simp add: re_eval)

lemma Atoi_overflow: "Atoi ''99999999999999999999'' = None"
  by (simp add: atoi_eval)

lemma find_patch_overflow:
  "FindStringSubmatch reSemVer ''1.2.99999999999999999999''
     = [''1.2.99999999999999999999'', ''1.2.99999999999999999999'', []]"
  by (simp add: re_eval)

lemma parse_patch_overflow:
  "NewVersionFromString ''1.2.99999999999999999999'' [] =
     Some ((Ptr 0, Some (InvalidPatchVersion ''99999999999999999999'')),
           [\<lparr>major = 1, minor = 2, patch = 0, suffix = []\<rparr>])"
  using SetMajor_fresh [of "[]"] SetMinor_fresh [of "[]"]
  by (simp add: NewVersionFromString_def alloc_def Let_def find_patch_overflow Atoi_1 Atoi_2
      Atoi_overflow)

lemma parse_minor_overflow:
  "NewVersionFromString ''1.99999999999999999999'' [] =
     Some ((Ptr 0, Some (InvalidMinorVersion ''99999999999999999999'')),
           [\<lparr>major = 1, minor = 0, patch = 0, suffix = []\<rparr>])"
  using SetMajor_fresh [of "[]"]
  by (simp add: NewVersionFromString_def alloc_def Let_def find_overflow Atoi_1 Atoi_overflow)

lemma find_max_plus_1:
  "FindStringSubmatch reSemVer ''9223372036854775808''
     = [''9223372036854775808'', ''9223372036854775808'', []]"
  by (simp add: re_eval)

lemma Atoi_max_plus_1: "Atoi ''9223372036854775808'' = None"
  by (simp add: atoi_eval)

lemma find_later_hyphens:
  "FindStringSubmatch reSemVer ''1.0-rc--2'' = [''1.0-rc--2'', ''1.0'', ''rc--2'']"
  by (simp add: re_eval)

lemma Atoi_0: "Atoi ''0'' = Some 0"
  by (simp add: atoi_eval)

lemma find_garbage: "FindStringSubmatch reSemVer ''garbage'' = []"
  by (simp add: re_eval)

lemma find_123: "FindStringSubmatch reSemVer ''1.2.3'' = [''1.2.3'', ''1.2.3'', []]"
  by (simp add: re_eval)

section \<open>The order of versions and the sort\<close>

















section \<open>What parsing stores\<close>

lemma sint_word_of_nat_small:
  assumes "n < 2 ^ 63"
  shows "sint (word_of_nat n :: go_int) = int n"
proof -
  have "sint (word_of_int (int n) :: go_int) = signed_take_bit (LENGTH(64) - 1) (int n)"
    by (rule sint_sbintrunc')
  also have "\<dots> = int n"
    using assms by (intro signed_take_bit_int_eq_self) simp_all
  finally show ?thesis by simp
qed

lemma Atoi_digits:
  assumes "list_all is_digit s" "Atoi s = Some n"
  shows "s \<noteq> [] \<and> int (digits_value s) < 2 ^ 63 \<and> n = word_of_int (int (digits_value s))"
proof -
  have "s \<noteq> []" using assms(2) by (auto simp: Atoi_def)
  then have "is_digit (hd s)" using assms(1) by (cases s) auto
  then have "hd s \<noteq> CHR ''-''" "hd s \<noteq> CHR ''+''" by (auto simp: is_digit_def)
  then show ?thesis using assms by (auto simp: Atoi_def Let_def split: if_splits)
qed

lemma Atoi_nonneg:
  assumes "list_all is_digit s" "Atoi s = Some n"
  shows "0 \<le>s n"
  using Atoi_digits [OF assms] by (simp add: word_sle_eq sint_word_of_nat_small)

lemma Split_nonempty: "Split s sep \<noteq> []"
  by (induction s) (auto split: list.splits)

lemma Split_pieces: "p \<in> set (Split s sep) \<Longrightarrow> set p \<subseteq> set s \<and> sep \<notin> set p"
proof (induction s arbitrary: p)
  case Nil
  then show ?case by simp
next
  case (Cons x xs)
  show ?case
  proof (cases "x = sep")
    case True
    then show ?thesis using Cons by auto
  next
    case False
    obtain q qs where q: "Split xs sep = q # qs"
      using Split_nonempty [of xs sep] by (cases "Split xs sep") auto
    then have "p = x # q \<or> p \<in> set qs" using Cons.prems False by auto
    then show ?thesis using Cons.IH [of q] Cons.IH [of p] q False by auto
  qed
qed

lemma numeric_run_chars:
  "\<forall>ch\<in>set (fst (numeric_run s)). is_digit ch \<or> ch = CHR ''.''"
  by (auto simp: numeric_run_def Let_def dest: set_takeWhileD)

lemma first_match_chars:
  "first_match s = Some (g1, g2) \<Longrightarrow> \<forall>ch\<in>set g1. is_digit ch \<or> ch = CHR ''.''"
proof (induction s)
  case Nil
  then show ?case by simp
next
  case (Cons x t)
  show ?case
  proof (cases "match_at (x # t)")
    case None
    then show ?thesis using Cons by simp
  next
    case (Some g)
    then have "g1 = fst (numeric_run (strip_v (x # t)))"
      using Cons.prems by (auto simp: match_at_def split: if_splits)
    then show ?thesis using numeric_run_chars by simp
  qed
qed

lemma pieces_digits:
  assumes "first_match s = Some (g1, g2)" "p \<in> set (Split g1 CHR ''.'')"
  shows "list_all is_digit p"
  using first_match_chars [OF assms(1)] Split_pieces [OF assms(2)]
  by (auto simp: list_all_iff)

text \<open>What parsing stores, for every input.\<close>

lemma NewVersionFromString_none:
  "first_match str = None \<Longrightarrow>
   NewVersionFromString str h =
     Some ((Ptr (length h), Some (InvalidVersionFormat str)),
           h @ [\<lparr>major = 0, minor = 0, patch = 0, suffix = []\<rparr>])"
  by (simp add: parse_eval FindStringSubmatch_none)

lemma NewVersionFromString_non_negative:
  "NewVersionFromString str h = Some (r, h') \<Longrightarrow> \<exists>x. h' = h @ [x] \<and> non_negative x"
proof (cases "first_match str")
  case None
  assume "NewVersionFromString str h = Some (r, h')"
  then show ?thesis by (auto simp add: NewVersionFromString_none [OF None] non_negative_def)
next
  case (Some g)
  assume p: "NewVersionFromString str h = Some (r, h')"
  obtain g1 g2 where g: "first_match str = Some (g1, g2)" using Some by (cases g) auto
  from FindStringSubmatch_some [OF g] obtain w where
    w: "FindStringSubmatch reSemVer str = [w, g1, g2]" ..
  have d: "\<And>i n. i < length (Split g1 CHR ''.'') \<Longrightarrow> Atoi (Split g1 CHR ''.'' ! i) = Some n
              \<Longrightarrow> 0 \<le>s n"
    using pieces_digits [OF g] Atoi_nonneg by (meson nth_mem)
  show ?thesis
    using p d [of 0] d [of 1] d [of 2]
    by (auto simp add: parse_eval w non_negative_def split: option.splits if_splits)
qed


lemma take_two_more: "take (length a + 2) (a @ x # y # z) = a @ [x, y]"
  by simp

lemma take_eq_append: "take n w = X \<Longrightarrow> \<exists>b. w = X @ b"
  by (metis append_take_drop_id)

lemma hyphens_iff:
  assumes "match_at t = Some (g1, g2)"
  shows "list_ex (\<lambda>pv. take (length (pv @ g1) + 2) (whole_at t) = pv @ g1 @ ''--'')
           [[], ''v'', ''V'']
         \<longleftrightarrow> starts_with CHR ''-'' g2"
proof
  from whole_at_parts [OF assms] obtain pv hy where
    w: "whole_at t = pv @ g1 @ hy @ g2"
    and pv: "pv = [] \<or> pv = ''v'' \<or> pv = ''V''"
    and hy: "hy = ''-'' \<or> (hy = [] \<and> \<not> starts_with CHR ''-'' g2)"
    and sd: "starts_digit g1" by blast
  from sd obtain d g1' where g1: "g1 = d # g1'" and d: "is_digit d"
    by (cases g1) (auto simp: starts_digit_def)
  have dv: "d \<noteq> CHR ''v''" "d \<noteq> CHR ''V''" using d by (auto simp: is_digit_def)
  have mem: "pv \<in> set [[], ''v'', ''V'']" using pv by auto
  {
    assume "starts_with CHR ''-'' g2"
    then obtain g2' where g2: "g2 = CHR ''-'' # g2'" and h: "hy = ''-''"
      using hy by (cases g2) (auto simp: starts_with_def)
    have "whole_at t = (pv @ g1) @ CHR ''-'' # CHR ''-'' # g2'"
      by (simp add: w g2 h)
    then have "take (length (pv @ g1) + 2) (whole_at t) = (pv @ g1) @ ''--''"
      by (simp only: take_two_more)
    then have "take (length (pv @ g1) + 2) (whole_at t) = pv @ g1 @ ''--''"
      by (simp only: append_assoc)
    then show "list_ex (\<lambda>pv. take (length (pv @ g1) + 2) (whole_at t) = pv @ g1 @ ''--'')
           [[], ''v'', ''V'']"
      unfolding list_ex_iff using mem by blast
  }
  {
    assume "list_ex (\<lambda>pv. take (length (pv @ g1) + 2) (whole_at t) = pv @ g1 @ ''--'')
           [[], ''v'', ''V'']"
    then obtain pv' where m': "pv' \<in> set [[], ''v'', ''V'']"
      and t: "take (length (pv' @ g1) + 2) (whole_at t) = pv' @ g1 @ ''--''"
      unfolding list_ex_iff by blast
    have pv': "pv' = [] \<or> pv' = ''v'' \<or> pv' = ''V''" using m' by auto
    from take_eq_append [OF t] obtain b where "whole_at t = (pv' @ g1 @ ''--'') @ b" ..
    then have e: "(pv @ g1) @ hy @ g2 = (pv' @ g1) @ ''--'' @ b" using w by simp
    have ne: "pv @ g1 \<noteq> []" "pv' @ g1 \<noteq> []" by (simp_all add: g1)
    have "hd ((pv @ g1) @ hy @ g2) = hd ((pv' @ g1) @ ''--'' @ b)" by (simp only: e)
    then have "hd (pv @ g1) = hd (pv' @ g1)" using ne by (metis hd_append2)
    then have "pv = pv'"
      using pv pv' dv by (auto simp: g1)
    then have "hy @ g2 = ''--'' @ b" using e by simp
    then show "starts_with CHR ''-'' g2"
      using hy by (auto simp: starts_with_def)
  }
qed

lemma hyphens_follow_run_match:
  assumes "first_match str = Some (g1, g2)"
  shows "hyphens_follow_run str \<longleftrightarrow> starts_with CHR ''-'' g2"
proof -
  from FindStringSubmatch_whole [OF assms] obtain t where
    t: "match_at t = Some (g1, g2)" "FindStringSubmatch reSemVer str = [whole_at t, g1, g2]"
    by blast
  show ?thesis
    using hyphens_iff [OF t(1)] by (simp add: hyphens_follow_run_def t(2))
qed

lemma hyphens_follow_run_none: "first_match str = None \<Longrightarrow> \<not> hyphens_follow_run str"
  by (simp add: hyphens_follow_run_def FindStringSubmatch_none)

lemma NewVersionFromString_suffix_exact:
  assumes "NewVersionFromString str h = Some ((p, e), h')"
  shows "\<exists>x. h' = h @ [x] \<and> load h' p = Some x
           \<and> (starts_with CHR ''-'' (suffix x) \<longleftrightarrow> e = None \<and> hyphens_follow_run str)"
proof (cases "first_match str")
  case None
  then show ?thesis using assms hyphens_follow_run_none [OF None]
    by (auto simp add: NewVersionFromString_none [OF None] starts_with_def load_fresh)
next
  case (Some g)
  obtain g1 g2 where g: "first_match str = Some (g1, g2)" using Some by (cases g) auto
  from FindStringSubmatch_some [OF g] obtain w where
    w: "FindStringSubmatch reSemVer str = [w, g1, g2]" ..
  have n: "\<not> starts_with CHR ''-'' []" by (simp add: starts_with_def)
  show ?thesis
    using assms n
    by (auto simp add: parse_eval w hyphens_follow_run_match [OF g] load_fresh
        split: option.splits if_splits)
qed

lemma find_v12: "FindStringSubmatch reSemVer ''v1.2'' = [''v1.2'', ''1.2'', []]"
  by (simp add: re_eval)

lemma find_hyphens: "FindStringSubmatch reSemVer ''1--rc'' = [''1--rc'', ''1'', ''-rc'']"
  by (simp add: re_eval)

lemma parse_v12:
  "NewVersionFromString ''v1.2'' h =
     Some ((Ptr (length h), None), h @ [\<lparr>major = 1, minor = 2, patch = 0, suffix = []\<rparr>])"
  by (simp add: parse_eval find_v12 Atoi_1 Atoi_2)

section \<open>Formatting and parsing back\<close>

lemma nat_lt_10: "d < 10 \<Longrightarrow> d = 0 \<or> d = 1 \<or> d = 2 \<or> d = 3 \<or> d = 4 \<or> d = 5 \<or> d = 6 \<or> d = 7 \<or> d = 8 \<or> d = (9::nat)"
  by arith

lemma digit_char_props: "d < 10 \<Longrightarrow> is_digit (digit_char d) \<and> digit_val (digit_char d) = d"
  by (drule nat_lt_10) (auto simp: is_digit_def digit_char_def digit_val_def)

lemma digits_value_snoc: "digits_value (ds @ [c]) = 10 * digits_value ds + digit_val c"
  by (simp add: digits_value_def)

lemma nat_digits_props:
  "list_all is_digit (nat_digits n) \<and> nat_digits n \<noteq> [] \<and> digits_value (nat_digits n) = n"
proof (induction n rule: nat_digits.induct)
  case (1 n)
  show ?case
  proof (cases "n < 10")
    case True
    then show ?thesis
      using digit_char_props [of n] by (simp add: digits_value_def)
  next
    case False
    have m: "n mod 10 < 10" by simp
    have e: "nat_digits n = nat_digits (n div 10) @ [digit_char (n mod 10)]"
      using False by (subst nat_digits.simps) simp
    show ?thesis
      using 1 [OF False] digit_char_props [OF m]
      by (simp add: e digits_value_snoc del: nat_digits.simps)
  qed
qed

lemma word_of_nat_sint:
  assumes "0 \<le>s (w :: go_int)"
  shows "word_of_nat (nat (sint w)) = w"
proof -
  have "0 \<le> sint w" using assms by (simp add: word_sle_eq)
  then have "(word_of_nat (nat (sint w)) :: go_int) = word_of_int (sint w)"
    by (metis of_int_of_nat_eq int_nat_eq)
  then show ?thesis by simp
qed

lemma fmt_d_digits:
  assumes "0 \<le>s w"
  shows "list_all is_digit (fmt_d w) \<and> fmt_d w \<noteq> []"
proof -
  have "0 \<le> sint w" using assms by (simp add: word_sle_eq)
  then show ?thesis using nat_digits_props by (simp add: fmt_d_def del: nat_digits.simps)
qed

lemma Atoi_fmt_d:
  assumes "0 \<le>s w"
  shows "Atoi (fmt_d w) = Some w"
proof -
  have nn: "0 \<le> sint w" using assms by (simp add: word_sle_eq)
  then have f: "fmt_d w = nat_digits (nat (sint w))" by (simp add: fmt_d_def del: nat_digits.simps)
  have d: "list_all is_digit (fmt_d w)" "fmt_d w \<noteq> []" using fmt_d_digits [OF assms] by auto
  then have "is_digit (hd (fmt_d w))" by (cases "fmt_d w") auto
  then have s: "hd (fmt_d w) \<noteq> CHR ''-''" "hd (fmt_d w) \<noteq> CHR ''+''"
    by (auto simp: is_digit_def)
  have v: "digits_value (fmt_d w) = nat (sint w)" using nat_digits_props f by simp
  have "sint w < 2 ^ 63" using sint_lt [of w] by simp
  then have r: "int (digits_value (fmt_d w)) < 2 ^ 63" using v nn by simp
  show ?thesis
    using d s r nn by (simp add: Atoi_def Let_def v word_of_nat_sint [OF assms])
qed

lemma span_digits:
  assumes "list_all is_digit ds" "\<not> starts_digit rest"
  shows "takeWhile is_digit (ds @ rest) = ds" "dropWhile is_digit (ds @ rest) = rest"
proof -
  have a: "\<forall>x\<in>set ds. is_digit x" using assms(1) by (simp add: list_all_iff)
  have "takeWhile is_digit rest = []" "dropWhile is_digit rest = rest"
    using assms(2) by (cases rest; simp add: starts_digit_def)+
  then show "takeWhile is_digit (ds @ rest) = ds" "dropWhile is_digit (ds @ rest) = rest"
    using a by (simp_all add: takeWhile_append2 dropWhile_append2)
qed

lemma starts_digit_append: "list_all is_digit ds \<Longrightarrow> ds \<noteq> [] \<Longrightarrow> starts_digit (ds @ rest)"
  by (cases ds) (auto simp: starts_digit_def)

lemma dot_props: "\<not> starts_digit (CHR ''.'' # t)" "starts_with CHR ''.'' (CHR ''.'' # t)"
  by (simp_all add: starts_digit_def starts_with_def is_digit_def)

lemma numeric_run_1:
  assumes "list_all is_digit d1" "\<not> starts_digit tail" "\<not> starts_with CHR ''.'' tail"
  shows "numeric_run (d1 @ tail) = (d1, tail)"
  using assms by (simp add: numeric_run_def Let_def span_digits)

lemma numeric_run_2:
  assumes "list_all is_digit d1" "list_all is_digit d2" "d2 \<noteq> []"
    "\<not> starts_digit tail" "\<not> starts_with CHR ''.'' tail"
  shows "numeric_run (d1 @ CHR ''.'' # d2 @ tail) = (d1 @ CHR ''.'' # d2, tail)"
  using assms
  by (simp add: numeric_run_def Let_def span_digits dot_props starts_digit_append)

lemma numeric_run_3:
  assumes "list_all is_digit d1" "list_all is_digit d2" "d2 \<noteq> []"
    "list_all is_digit d3" "d3 \<noteq> []"
    "\<not> starts_digit tail" "\<not> starts_with CHR ''.'' tail"
  shows "numeric_run (d1 @ CHR ''.'' # d2 @ CHR ''.'' # d3 @ tail)
         = (d1 @ CHR ''.'' # d2 @ CHR ''.'' # d3, tail)"
  using assms
  by (simp add: numeric_run_def Let_def span_digits dot_props starts_digit_append)

lemma digits_no_dot: "list_all is_digit d \<Longrightarrow> CHR ''.'' \<notin> set d"
proof -
  assume "list_all is_digit d"
  then have "\<forall>x\<in>set d. is_digit x" by (simp add: list_all_iff)
  then show ?thesis using digit_not_dot by blast
qed

lemma Split_no_sep: "sep \<notin> set d \<Longrightarrow> Split d sep = [d]"
proof (induction d)
  case Nil
  show ?case by simp
next
  case (Cons x d)
  then have "Split d sep = [d]" "x \<noteq> sep" by auto
  then show ?case by simp
qed

lemma Split_append: "sep \<notin> set d \<Longrightarrow> Split (d @ sep # rest) sep = d # Split rest sep"
proof (induction d)
  case Nil
  show ?case by simp
next
  case (Cons x d)
  then have "Split (d @ sep # rest) sep = d # Split rest sep" "x \<noteq> sep" by auto
  then show ?case by simp
qed


lemma find_newline:
  "FindStringSubmatch reSemVer ''v1-a\<newline>b'' = [''v1-a'', ''1'', ''a'']"
  by (simp add: re_eval)

text \<open>The numeric group has one to three pieces on every input: the test for more than
  three pieces in \<open>NewVersionFromString\<close> never fails, and a format error means that the
  pattern matched nowhere.\<close>

lemma takeWhile_digit_no_dot: "CHR ''.'' \<notin> set (takeWhile is_digit t)"
proof
  assume "CHR ''.'' \<in> set (takeWhile is_digit t)"
  then have "is_digit CHR ''.''" by (rule set_takeWhileD [THEN conjunct2])
  then show False by (simp add: is_digit_def)
qed

lemma numeric_run_pieces:
  "1 \<le> length (Split (fst (numeric_run s)) CHR ''.'')
   \<and> length (Split (fst (numeric_run s)) CHR ''.'') \<le> 3"
  by (simp add: numeric_run_def Let_def Split_append Split_no_sep takeWhile_digit_no_dot)

lemma first_match_pieces:
  "first_match s = Some (g1, g2) \<Longrightarrow>
   1 \<le> length (Split g1 CHR ''.'') \<and> length (Split g1 CHR ''.'') \<le> 3"
proof (induction s)
  case Nil
  then show ?case by simp
next
  case (Cons x t)
  show ?case
  proof (cases "match_at (x # t)")
    case None
    then show ?thesis using Cons by simp
  next
    case (Some g)
    then have "g1 = fst (numeric_run (strip_v (x # t)))"
      using Cons.prems by (auto simp: match_at_def split: if_splits)
    then show ?thesis using numeric_run_pieces by simp
  qed
qed

lemma invalid_format_only_without_match:
  assumes "NewVersionFromString str h = Some ((p, Some (InvalidVersionFormat t)), h')"
  shows "first_match str = None"
proof (rule ccontr)
  assume "first_match str \<noteq> None"
  then obtain g1 g2 where g: "first_match str = Some (g1, g2)" by auto
  from FindStringSubmatch_some [OF g] obtain w where
    w: "FindStringSubmatch reSemVer str = [w, g1, g2]" ..
  from first_match_pieces [OF g] assms show False
    by (auto simp add: parse_eval w split: option.splits if_splits)
qed

text \<open>Parsing a run of digits: the range of \<open>int\<close> is the only bound.\<close>

lemma Atoi_digits_value:
  assumes "list_all is_digit ds" "ds \<noteq> []"
  shows "Atoi ds = (if digits_value ds < 2 ^ 63 then Some (word_of_nat (digits_value ds)) else None)"
proof -
  have "is_digit (hd ds)" using assms by (cases ds) auto
  then have "hd ds \<noteq> CHR ''-''" "hd ds \<noteq> CHR ''+''" by (auto simp: is_digit_def)
  then show ?thesis using assms by (simp add: Atoi_def Let_def)
qed

lemma first_match_digits:
  assumes "list_all is_digit ds" "ds \<noteq> []"
  shows "first_match ds = Some (ds, [])"
proof -
  have e: "\<not> starts_digit []" "\<not> starts_with CHR ''.'' []"
    by (simp_all add: starts_digit_def starts_with_def)
  have sd: "starts_digit ds" using starts_digit_append [OF assms, of "[]"] by simp
  then have "strip_v ds = ds" using v_not_digit [of ds] by (auto simp: strip_v_def)
  moreover have "numeric_run ds = (ds, [])"
    using numeric_run_1 [OF assms(1) e] by simp
  ultimately have "match_at ds = Some (ds, [])"
    using sd by (simp add: match_at_def strip_hyphen_def starts_with_def)
  then show ?thesis using assms(2) by (cases ds) simp_all
qed

lemma parse_digits:
  assumes "list_all is_digit ds" "ds \<noteq> []"
  shows "NewVersionFromString ds h =
     (if digits_value ds < 2 ^ 63
      then Some ((Ptr (length h), None),
                 h @ [\<lparr>major = word_of_nat (digits_value ds), minor = 0, patch = 0, suffix = []\<rparr>])
      else Some ((Ptr (length h), Some (InvalidMajorVersion ds)),
                 h @ [\<lparr>major = 0, minor = 0, patch = 0, suffix = []\<rparr>]))"
proof -
  from FindStringSubmatch_some [OF first_match_digits [OF assms]] obtain w where
    w: "FindStringSubmatch reSemVer ds = [w, ds, []]" ..
  have s: "Split ds CHR ''.'' = [ds]"
    using digits_no_dot [OF assms(1)] by (rule Split_no_sep)
  show ?thesis
    by (simp add: parse_eval w s Atoi_digits_value [OF assms])
qed

section \<open>The claims\<close>

text \<open>
  C1. The claim: \<open>IsValidVersionString\<close> is true on \<open>v1.2.3-beta\<close>, false on \<open>1.2.3.4\<close>
  and false on \<open>vX\<close>. The code at these three inputs: true on \<open>v1.2.3-beta\<close>, false on
  \<open>vX\<close>, but true on \<open>1.2.3.4\<close>: the pattern captures the three groups \<open>1.2.3\<close> and
  hands the rest, \<open>.4\<close>, to the suffix group, so the test for more than three pieces
  never sees a fourth.
\<close>

theorem IsValidVersionString_examples:
  "IsValidVersionString ''v1.2.3-beta'' h =
     Some (True, h @ [\<lparr>major = 1, minor = 2, patch = 3, suffix = ''beta''\<rparr>])
   \<and> IsValidVersionString ''vX'' h =
     Some (False, h @ [\<lparr>major = 0, minor = 0, patch = 0, suffix = []\<rparr>])
   \<and> IsValidVersionString ''1.2.3.4'' h =
     Some (True, h @ [\<lparr>major = 1, minor = 2, patch = 3, suffix = ''.4''\<rparr>])"
  by (simp add: IsValidVersionString_def parse_eval find_v123beta find_vX find_1234
      Atoi_1 Atoi_2 Atoi_3)

text \<open>
  C2. The claim: whenever \<open>NewVersionFromString\<close> returns an error, the version returned
  with it is zero-valued. The code stores each component as soon as it is converted, so
  the claim fails when the minor (or patch) conversion fails after the major was stored:
  on \<open>1.99999999999999999999\<close> the minor is out of the range of \<open>int\<close> and the version
  returned with the error has major 1.
\<close>

theorem NewVersionFromString_error_nonzero:
  "NewVersionFromString ''1.99999999999999999999'' [] =
     Some ((Ptr 0, Some (InvalidMinorVersion ''99999999999999999999'')),
           [\<lparr>major = 1, minor = 0, patch = 0, suffix = []\<rparr>])
   \<and> load [\<lparr>major = 1, minor = 0, patch = 0, suffix = []\<rparr>] (Ptr 0)
       \<noteq> Some \<lparr>major = 0, minor = 0, patch = 0, suffix = []\<rparr>"
  using SetMajor_fresh [of "[]"]
  by (simp add: NewVersionFromString_def alloc_def Let_def find_overflow Atoi_1 Atoi_overflow load_def)

text \<open>
  C2, as amended. Whenever \<open>NewVersionFromString\<close> returns an error, the version returned
  with it is the one just allocated, and it holds the components converted before the
  failing one, the others being 0 and the suffix empty: it is zero-valued when the error
  is an invalid format or an invalid major version; with an invalid minor version its
  major is the first piece of the numeric group, converted, and its minor and patch are
  0; with an invalid patch version its major and minor are the first and second pieces,
  converted, and its patch is 0.
\<close>

theorem NewVersionFromString_error_value:
  "NewVersionFromString str h = Some ((p, Some e), h') \<Longrightarrow>
   \<exists>x. p = Ptr (length h) \<and> h' = h @ [x] \<and> load h' p = Some x
       \<and> (case e of
             InvalidVersionFormat t \<Rightarrow> x = \<lparr>major = 0, minor = 0, patch = 0, suffix = []\<rparr>
           | InvalidMajorVersion t \<Rightarrow> x = \<lparr>major = 0, minor = 0, patch = 0, suffix = []\<rparr>
           | InvalidMinorVersion t \<Rightarrow>
               (\<exists>m. Atoi (Split (FindStringSubmatch reSemVer str ! 1) CHR ''.'' ! 0) = Some m
                  \<and> x = \<lparr>major = m, minor = 0, patch = 0, suffix = []\<rparr>)
           | InvalidPatchVersion t \<Rightarrow>
               (\<exists>m n. Atoi (Split (FindStringSubmatch reSemVer str ! 1) CHR ''.'' ! 0) = Some m
                  \<and> Atoi (Split (FindStringSubmatch reSemVer str ! 1) CHR ''.'' ! 1) = Some n
                  \<and> x = \<lparr>major = m, minor = n, patch = 0, suffix = []\<rparr>))"
  using NewVersionFromString_error_exact [of str h p e h'] by (auto simp: load_fresh)

theorem NewVersionFromString_error_value_witness:
  "NewVersionFromString ''1.2.99999999999999999999'' [] =
     Some ((Ptr 0, Some (InvalidPatchVersion ''99999999999999999999'')),
           [\<lparr>major = 1, minor = 2, patch = 0, suffix = []\<rparr>])
   \<and> (\<exists>x m n. load [\<lparr>major = 1, minor = 2, patch = 0, suffix = []\<rparr>] (Ptr 0) = Some x
          \<and> Atoi ''1'' = Some m \<and> Atoi ''2'' = Some n
          \<and> x = \<lparr>major = m, minor = n, patch = 0, suffix = []\<rparr>)
   \<and> NewVersionFromString ''1.99999999999999999999'' [] =
     Some ((Ptr 0, Some (InvalidMinorVersion ''99999999999999999999'')),
           [\<lparr>major = 1, minor = 0, patch = 0, suffix = []\<rparr>])
   \<and> (\<exists>x m. load [\<lparr>major = 1, minor = 0, patch = 0, suffix = []\<rparr>] (Ptr 0) = Some x
          \<and> Atoi ''1'' = Some m
          \<and> x = \<lparr>major = m, minor = 0, patch = 0, suffix = []\<rparr>)
   \<and> NewVersionFromString ''vX'' [] = Some ((Ptr 0, Some (InvalidVersionFormat ''vX'')),
        [\<lparr>major = 0, minor = 0, patch = 0, suffix = []\<rparr>])
   \<and> load [\<lparr>major = 0, minor = 0, patch = 0, suffix = []\<rparr>] (Ptr 0)
        = Some \<lparr>major = 0, minor = 0, patch = 0, suffix = []\<rparr>"
proof -
  have p3: "NewVersionFromString ''vX'' [] = Some ((Ptr 0, Some (InvalidVersionFormat ''vX'')),
        [\<lparr>major = 0, minor = 0, patch = 0, suffix = []\<rparr>])"
    by (simp add: NewVersionFromString_def alloc_def Let_def find_vX)
  have s1: "Split ''1.2.99999999999999999999'' CHR ''.'' = [''1'', ''2'', ''99999999999999999999'']"
    by simp
  have s2: "Split ''1.99999999999999999999'' CHR ''.'' = [''1'', ''99999999999999999999'']"
    by simp
  from NewVersionFromString_error_value [OF parse_patch_overflow]
  have a: "\<exists>x m n. load [\<lparr>major = 1, minor = 2, patch = 0, suffix = []\<rparr>] (Ptr 0) = Some x
          \<and> Atoi ''1'' = Some m \<and> Atoi ''2'' = Some n
          \<and> x = \<lparr>major = m, minor = n, patch = 0, suffix = []\<rparr>"
    by (simp add: find_patch_overflow s1)
  from NewVersionFromString_error_value [OF parse_minor_overflow]
  have b: "\<exists>x m. load [\<lparr>major = 1, minor = 0, patch = 0, suffix = []\<rparr>] (Ptr 0) = Some x
          \<and> Atoi ''1'' = Some m
          \<and> x = \<lparr>major = m, minor = 0, patch = 0, suffix = []\<rparr>"
    by (simp add: find_overflow s2)
  from NewVersionFromString_error_value [OF p3]
  have c: "load [\<lparr>major = 0, minor = 0, patch = 0, suffix = []\<rparr>] (Ptr 0)
        = Some \<lparr>major = 0, minor = 0, patch = 0, suffix = []\<rparr>"
    by simp
  show ?thesis
    using parse_patch_overflow a parse_minor_overflow b p3 c by (intro conjI)
qed

text \<open>
  C3. The claim: every mutation method changes the version it is invoked on and returns
  that same instance, \<open>SetFromString\<close> on a valid string included. The code of
  \<open>SetFromString\<close> on a string that parses: the receiver is not written (every cell of
  the store is as before), and the pointer returned is the version that
  \<open>NewVersionFromString\<close> allocated, whatever the receiver is. So after
  \<open>v := NewVersion(); v.SetFromString("1.2.3")\<close> the version \<open>v\<close> is still 0.0.0.
\<close>

theorem SetFromString_returns_new_instance:
  "SetFromString v ''1.2.3'' h =
     Some (Ptr (length h), h @ [\<lparr>major = 1, minor = 2, patch = 3, suffix = []\<rparr>])
   \<and> SetFromString (Ptr 0) ''1.2.3'' [\<lparr>major = 0, minor = 0, patch = 0, suffix = []\<rparr>] =
     Some (Ptr 1, [\<lparr>major = 0, minor = 0, patch = 0, suffix = []\<rparr>,
                   \<lparr>major = 1, minor = 2, patch = 3, suffix = []\<rparr>])"
proof -
  have "\<And>h. NewVersionFromString ''1.2.3'' h =
     Some ((Ptr (length h), None), h @ [\<lparr>major = 1, minor = 2, patch = 3, suffix = []\<rparr>])"
    by (simp add: parse_eval find_123 Atoi_1 Atoi_2 Atoi_3)
  then have "\<And>v h. SetFromString v ''1.2.3'' h =
     Some (Ptr (length h), h @ [\<lparr>major = 1, minor = 2, patch = 3, suffix = []\<rparr>])"
    by (simp add: SetFromString_def)
  then show ?thesis by simp
qed



text \<open>
  C5. The claim: a version with major, minor, patch at least 0 and a suffix free of
  structure conflicts (for example not starting with a hyphen, not digits and dots that
  extend the numeric run) is parsed back from its formatted string field for field. On
  the code the hyphen that the formatter inserts always ends the numeric run, so neither
  example is a conflict; but the \<open>.\<close> of the pattern does not match a line feed, and a
  suffix that contains one comes back cut at it: \<open>1.0.0\<close> with the suffix "a", line
  feed, "b" formats as \<open>v1-a\<close>, line feed, \<open>b\<close> and parses back with the suffix \<open>a\<close>.
\<close>

theorem round_trip_line_feed:
  "String (Ptr 0) [\<lparr>major = 1, minor = 0, patch = 0, suffix = ''a\<newline>b''\<rparr>]
     = Some ''v1-a\<newline>b''
   \<and> NewVersionFromString ''v1-a\<newline>b''
        [\<lparr>major = 1, minor = 0, patch = 0, suffix = ''a\<newline>b''\<rparr>]
     = Some ((Ptr 1, None),
         [\<lparr>major = 1, minor = 0, patch = 0, suffix = ''a\<newline>b''\<rparr>,
          \<lparr>major = 1, minor = 0, patch = 0, suffix = ''a''\<rparr>])
   \<and> \<lparr>major = 1, minor = 0, patch = 0, suffix = ''a''\<rparr>
       \<noteq> \<lparr>major = 1, minor = 0, patch = 0, suffix = ''a\<newline>b''\<rparr>"
proof -
  let ?h = "[\<lparr>major = 1, minor = 0, patch = 0, suffix = ''a\<newline>b''\<rparr>]"
  have "String (Ptr 0) ?h = Some ''v1-a\<newline>b''"
    by (simp add: String_def load_def fmt_d_1)
  moreover have "NewVersionFromString ''v1-a\<newline>b'' ?h
     = Some ((Ptr 1, None), ?h @ [\<lparr>major = 1, minor = 0, patch = 0, suffix = ''a''\<rparr>])"
    using SetMajor_fresh [of ?h] SetSuffix_fresh [of ?h]
    by (simp add: NewVersionFromString_def alloc_def Let_def find_newline Atoi_1)
  ultimately show ?thesis by simp
qed

text \<open>
  C5, as amended. For every version with major, minor and patch at least 0 and a suffix
  that contains no line feed, \<open>String\<close> returns a string on which
  \<open>NewVersionFromString\<close> returns a nil error and a new version equal to the first one
  field for field.
\<close>

theorem format_parse_round_trip:
  assumes "load h v = Some x" "0 \<le>s major x" "0 \<le>s minor x" "0 \<le>s patch x"
    "CHR 0x0A \<notin> set (suffix x)"
  shows "\<exists>s. String v h = Some s
           \<and> NewVersionFromString s h = Some ((Ptr (length h), None), h @ [x])"
proof -
  define tail where "tail = (if suffix x \<noteq> [] then CHR ''-'' # suffix x else [])"
  define N where "N =
    (if minor x = 0 \<and> patch x = 0 then fmt_d (major x)
     else if patch x = 0 then fmt_d (major x) @ CHR ''.'' # fmt_d (minor x)
     else fmt_d (major x) @ CHR ''.'' # fmt_d (minor x) @ CHR ''.'' # fmt_d (patch x))"
  note dm = fmt_d_digits [OF assms(2)]
  note di = fmt_d_digits [OF assms(3)]
  note dp = fmt_d_digits [OF assms(4)]
  have S: "String v h = Some (CHR ''v'' # N @ tail)"
    using assms(1) by (simp add: String_def Let_def N_def tail_def)
  have t1: "\<not> starts_digit tail" "\<not> starts_with CHR ''.'' tail"
    by (auto simp: tail_def starts_digit_def starts_with_def is_digit_def)
  have "strip_hyphen tail = suffix x"
    by (simp add: tail_def strip_hyphen_def starts_with_def)
  moreover have "takeWhile not_nl (suffix x) = suffix x"
    using assms(5) by (auto simp: takeWhile_eq_all_conv not_nl_def)
  ultimately have t2: "takeWhile not_nl (strip_hyphen tail) = suffix x" by simp
  have nr: "numeric_run (N @ tail) = (N, tail)"
    using numeric_run_1 [of "fmt_d (major x)" tail]
      numeric_run_2 [of "fmt_d (major x)" "fmt_d (minor x)" tail]
      numeric_run_3 [of "fmt_d (major x)" "fmt_d (minor x)" "fmt_d (patch x)" tail]
      dm di dp t1
    by (simp add: N_def)
  have sd: "starts_digit (N @ tail)"
    using starts_digit_append [of "fmt_d (major x)"] dm by (simp add: N_def)
  have "strip_v (CHR ''v'' # N @ tail) = N @ tail"
    using sd by (simp add: strip_v_def starts_with_def)
  then have "match_at (CHR ''v'' # N @ tail) = Some (N, suffix x)"
    using sd nr t2 by (simp add: match_at_def)
  then have "first_match (CHR ''v'' # N @ tail) = Some (N, suffix x)" by simp
  from FindStringSubmatch_some [OF this] obtain w where
    w: "FindStringSubmatch reSemVer (CHR ''v'' # N @ tail) = [w, N, suffix x]" ..
  note nd = digits_no_dot [OF dm [THEN conjunct1]] digits_no_dot [OF di [THEN conjunct1]]
    digits_no_dot [OF dp [THEN conjunct1]]
  note at = Atoi_fmt_d [OF assms(2)] Atoi_fmt_d [OF assms(3)] Atoi_fmt_d [OF assms(4)]
  have "NewVersionFromString (CHR ''v'' # N @ tail) h = Some ((Ptr (length h), None), h @ [x])"
  proof (cases "minor x = 0 \<and> patch x = 0")
    case True
    then have "Split N CHR ''.'' = [fmt_d (major x)]"
      using nd by (simp add: N_def Split_no_sep)
    moreover have "\<lparr>major = major x, minor = 0, patch = 0, suffix = suffix x\<rparr> = x"
      using True by (cases x) simp
    ultimately show ?thesis
      by (simp add: parse_eval w at)
  next
    case False
    show ?thesis
    proof (cases "patch x = 0")
      case True
      then have "Split N CHR ''.'' = [fmt_d (major x), fmt_d (minor x)]"
        using False nd by (simp add: N_def Split_no_sep Split_append)
      moreover have "\<lparr>major = major x, minor = minor x, patch = 0, suffix = suffix x\<rparr> = x"
        using True by (cases x) simp
      ultimately show ?thesis
        by (simp add: parse_eval w at)
    next
      case False
      then have "Split N CHR ''.'' = [fmt_d (major x), fmt_d (minor x), fmt_d (patch x)]"
        using nd by (simp add: N_def Split_no_sep Split_append)
      moreover have "\<lparr>major = major x, minor = minor x, patch = patch x, suffix = suffix x\<rparr> = x"
        by (cases x) simp
      ultimately show ?thesis
        by (simp add: parse_eval w at)
    qed
  qed
  then show ?thesis using S by simp
qed


theorem format_parse_round_trip_witness:
  "load [\<lparr>major = 1, minor = 0, patch = 3, suffix = ''-rc.1''\<rparr>] (Ptr 0)
     = Some \<lparr>major = 1, minor = 0, patch = 3, suffix = ''-rc.1''\<rparr>
   \<and> (0 :: go_int) \<le>s 1 \<and> (0 :: go_int) \<le>s 0 \<and> (0 :: go_int) \<le>s 3
   \<and> CHR 0x0A \<notin> set ''-rc.1''
   \<and> String (Ptr 0) [\<lparr>major = 1, minor = 0, patch = 3, suffix = ''-rc.1''\<rparr>]
       = Some ''v1.0.3--rc.1''
   \<and> NewVersionFromString ''v1.0.3--rc.1'' [\<lparr>major = 1, minor = 0, patch = 3, suffix = ''-rc.1''\<rparr>]
       = Some ((Ptr 1, None), [\<lparr>major = 1, minor = 0, patch = 3, suffix = ''-rc.1''\<rparr>,
                               \<lparr>major = 1, minor = 0, patch = 3, suffix = ''-rc.1''\<rparr>])"
proof -
  let ?x = "\<lparr>major = 1, minor = 0, patch = 3, suffix = ''-rc.1''\<rparr>"
  have l: "load [?x] (Ptr 0) = Some ?x" by (simp add: load_def)
  have n: "0 \<le>s major ?x" "0 \<le>s minor ?x" "0 \<le>s patch ?x" by (simp_all add: word_sle_eq)
  have f: "CHR 0x0A \<notin> set (suffix ?x)" by simp
  have s: "String (Ptr 0) [?x] = Some ''v1.0.3--rc.1''"
    by (simp add: String_def load_def fmt_d_0 fmt_d_1 fmt_d_3)
  from format_parse_round_trip [OF l n f] s
  have "NewVersionFromString ''v1.0.3--rc.1'' [?x] = Some ((Ptr 1, None), [?x, ?x])"
    by simp
  then show ?thesis using l n f s by simp
qed

text \<open>
  C6. The formatter writes \<open>v\<close> and the major, then the minor exactly when the minor or
  the patch is not zero, then the patch exactly when it is not zero, then a hyphen and
  the suffix exactly when the suffix is not empty. So a new version formats as \<open>v0\<close>
  whatever the store it is allocated in, and after \<open>Set\<close> with 1,0,0, with 1,2,0, with
  1,0,3 and with 1,2,3 a version (a new one, or any stored one) formats as \<open>v1\<close>,
  \<open>v1.2\<close>, \<open>v1.0.3\<close> and \<open>v1.2.3\<close>.
\<close>

theorem String_rule:
  "String (fst (NewVersion h)) (snd (NewVersion h)) = Some ''v0''
   \<and> (\<exists>h'. Set (fst (NewVersion h)) 1 0 0 [] (snd (NewVersion h)) = Some (fst (NewVersion h), h')
            \<and> String (fst (NewVersion h)) h' = Some ''v1'')
   \<and> (\<exists>h'. Set (fst (NewVersion h)) 1 2 0 [] (snd (NewVersion h)) = Some (fst (NewVersion h), h')
            \<and> String (fst (NewVersion h)) h' = Some ''v1.2'')
   \<and> (\<exists>h'. Set (fst (NewVersion h)) 1 0 3 [] (snd (NewVersion h)) = Some (fst (NewVersion h), h')
            \<and> String (fst (NewVersion h)) h' = Some ''v1.0.3'')
   \<and> (\<exists>h'. Set (fst (NewVersion h)) 1 2 3 [] (snd (NewVersion h)) = Some (fst (NewVersion h), h')
            \<and> String (fst (NewVersion h)) h' = Some ''v1.2.3'')
   \<and> (load h v = Some x \<longrightarrow>
         String v h =
           Some (''v'' @ fmt_d (major x)
                 @ (if minor x \<noteq> 0 \<or> patch x \<noteq> 0 then ''.'' @ fmt_d (minor x) else [])
                 @ (if patch x \<noteq> 0 then ''.'' @ fmt_d (patch x) else [])
                 @ (if suffix x \<noteq> [] then ''-'' @ suffix x else []))
       \<and> (\<exists>h'. Set v 1 0 0 [] h = Some (v, h') \<and> String v h' = Some ''v1'')
       \<and> (\<exists>h'. Set v 1 2 0 [] h = Some (v, h') \<and> String v h' = Some ''v1.2'')
       \<and> (\<exists>h'. Set v 1 0 3 [] h = Some (v, h') \<and> String v h' = Some ''v1.0.3'')
       \<and> (\<exists>h'. Set v 1 2 3 [] h = Some (v, h') \<and> String v h' = Some ''v1.2.3''))"
proof -
  have ex: "\<And>h v x. load h v = Some x \<Longrightarrow>
       (\<exists>h'. Set v 1 0 0 [] h = Some (v, h') \<and> String v h' = Some ''v1'')
     \<and> (\<exists>h'. Set v 1 2 0 [] h = Some (v, h') \<and> String v h' = Some ''v1.2'')
     \<and> (\<exists>h'. Set v 1 0 3 [] h = Some (v, h') \<and> String v h' = Some ''v1.0.3'')
     \<and> (\<exists>h'. Set v 1 2 3 [] h = Some (v, h') \<and> String v h' = Some ''v1.2.3'')"
    by (simp add: Set_result String_def load_store fmt_d_0 fmt_d_1 fmt_d_2 fmt_d_3)
  have new: "load (snd (NewVersion h)) (fst (NewVersion h))
             = Some \<lparr>major = 0, minor = 0, patch = 0, suffix = []\<rparr>"
    by (simp add: NewVersion_result load_fresh)
  have v0: "String (fst (NewVersion h)) (snd (NewVersion h)) = Some ''v0''"
    by (simp add: String_def new fmt_d_0)
  have rule: "load h v = Some x \<Longrightarrow>
         String v h =
           Some (''v'' @ fmt_d (major x)
                 @ (if minor x \<noteq> 0 \<or> patch x \<noteq> 0 then ''.'' @ fmt_d (minor x) else [])
                 @ (if patch x \<noteq> 0 then ''.'' @ fmt_d (patch x) else [])
                 @ (if suffix x \<noteq> [] then ''-'' @ suffix x else []))"
    by (simp add: String_def Let_def)
  show ?thesis
    using v0 ex [OF new] ex [of h v x] rule by blast
qed

theorem String_rule_witness:
  "String (Ptr 0) [\<lparr>major = 0, minor = 0, patch = 0, suffix = []\<rparr>] = Some ''v0''
   \<and> NewVersion [] = (Ptr 0, [\<lparr>major = 0, minor = 0, patch = 0, suffix = []\<rparr>])
   \<and> load [\<lparr>major = 0, minor = 0, patch = 7, suffix = ''rc.1''\<rparr>] (Ptr 0)
     = Some \<lparr>major = 0, minor = 0, patch = 7, suffix = ''rc.1''\<rparr>
   \<and> String (Ptr 0) [\<lparr>major = 0, minor = 0, patch = 7, suffix = ''rc.1''\<rparr>] = Some ''v0.0.7-rc.1''
   \<and> (\<exists>h'. Set (Ptr 0) 1 0 3 [] [\<lparr>major = 0, minor = 0, patch = 7, suffix = ''rc.1''\<rparr>]
              = Some (Ptr 0, h') \<and> String (Ptr 0) h' = Some ''v1.0.3'')"
proof -
  have l: "load [\<lparr>major = 0, minor = 0, patch = 7, suffix = ''rc.1''\<rparr>] (Ptr 0)
     = Some \<lparr>major = 0, minor = 0, patch = 7, suffix = ''rc.1''\<rparr>"
    by (simp add: load_def)
  have n: "NewVersion [] = (Ptr 0, [\<lparr>major = 0, minor = 0, patch = 0, suffix = []\<rparr>])"
    by (simp add: NewVersion_result)
  from String_rule [of "[]"] n
  have a: "String (Ptr 0) [\<lparr>major = 0, minor = 0, patch = 0, suffix = []\<rparr>] = Some ''v0''"
    by simp
  from String_rule [of "[\<lparr>major = 0, minor = 0, patch = 7, suffix = ''rc.1''\<rparr>]" "Ptr 0"
      "\<lparr>major = 0, minor = 0, patch = 7, suffix = ''rc.1''\<rparr>"] l
  have b: "String (Ptr 0) [\<lparr>major = 0, minor = 0, patch = 7, suffix = ''rc.1''\<rparr>] = Some ''v0.0.7-rc.1''"
    and c: "\<exists>h'. Set (Ptr 0) 1 0 3 [] [\<lparr>major = 0, minor = 0, patch = 7, suffix = ''rc.1''\<rparr>]
              = Some (Ptr 0, h') \<and> String (Ptr 0) h' = Some ''v1.0.3''"
    by (simp_all add: fmt_d_def digit_char_def)
  show ?thesis using a n l b c by (intro conjI)
qed

text \<open>
  C7. When the string does not parse (\<open>NewVersionFromString\<close> returns an error),
  \<open>SetFromString\<close> returns the receiver and the receiver's four fields are what they
  were before the call.
\<close>

theorem SetFromString_failure:
  "load h v = Some x \<Longrightarrow> NewVersionFromString s h = Some ((p, Some e), h1) \<Longrightarrow>
   \<exists>h'. SetFromString v s h = Some (v, h') \<and> load h' v = Some x"
proof -
  assume l: "load h v = Some x" and f: "NewVersionFromString s h = Some ((p, Some e), h1)"
  from NewVersionFromString_frame [of s h] f obtain y where "h1 = h @ [y]" by auto
  then show ?thesis using l f by (simp add: SetFromString_def load_append)
qed

theorem SetFromString_failure_witness:
  "Set (Ptr 0) 1 2 3 [] [\<lparr>major = 0, minor = 0, patch = 0, suffix = []\<rparr>]
     = Some (Ptr 0, [\<lparr>major = 1, minor = 2, patch = 3, suffix = []\<rparr>])
   \<and> load [\<lparr>major = 1, minor = 2, patch = 3, suffix = []\<rparr>] (Ptr 0)
       = Some \<lparr>major = 1, minor = 2, patch = 3, suffix = []\<rparr>
   \<and> NewVersionFromString ''garbage'' [\<lparr>major = 1, minor = 2, patch = 3, suffix = []\<rparr>]
       = Some ((Ptr 1, Some (InvalidVersionFormat ''garbage'')),
               [\<lparr>major = 1, minor = 2, patch = 3, suffix = []\<rparr>,
                \<lparr>major = 0, minor = 0, patch = 0, suffix = []\<rparr>])
   \<and> (\<exists>h'. SetFromString (Ptr 0) ''garbage'' [\<lparr>major = 1, minor = 2, patch = 3, suffix = []\<rparr>]
              = Some (Ptr 0, h')
            \<and> load h' (Ptr 0) = Some \<lparr>major = 1, minor = 2, patch = 3, suffix = []\<rparr>)"
proof -
  have s: "Set (Ptr 0) 1 2 3 [] [\<lparr>major = 0, minor = 0, patch = 0, suffix = []\<rparr>]
     = Some (Ptr 0, [\<lparr>major = 1, minor = 2, patch = 3, suffix = []\<rparr>])"
    by (simp add: Set_def SetMajor_def SetMinor_def SetPatch_def SetSuffix_def load_def store_def)
  have l: "load [\<lparr>major = 1, minor = 2, patch = 3, suffix = []\<rparr>] (Ptr 0)
       = Some \<lparr>major = 1, minor = 2, patch = 3, suffix = []\<rparr>"
    by (simp add: load_def)
  have f: "NewVersionFromString ''garbage'' [\<lparr>major = 1, minor = 2, patch = 3, suffix = []\<rparr>]
       = Some ((Ptr 1, Some (InvalidVersionFormat ''garbage'')),
               [\<lparr>major = 1, minor = 2, patch = 3, suffix = []\<rparr>,
                \<lparr>major = 0, minor = 0, patch = 0, suffix = []\<rparr>])"
    by (simp add: NewVersionFromString_def alloc_def Let_def find_garbage)
  show ?thesis
    using SetFromString_failure [OF l f] s l f by simp
qed

text \<open>
  C8. The claim: the suffix of a version reachable through the public operations never
  begins with a hyphen. The pattern strips one hyphen only (\<open>-{0,1}\<close>), so parsing
  \<open>1--rc\<close> stores the suffix \<open>-rc\<close>; and \<open>SetSuffix\<close> stores the text it is given, so
  \<open>SetSuffix("-rc")\<close> stores \<open>-rc\<close> as well.
\<close>

theorem parsed_suffix_leading_hyphen:
  "NewVersionFromString ''1--rc'' [] =
     Some ((Ptr 0, None), [\<lparr>major = 1, minor = 0, patch = 0, suffix = ''-rc''\<rparr>])
   \<and> SetSuffix (Ptr 0) [''-rc''] [\<lparr>major = 0, minor = 0, patch = 0, suffix = []\<rparr>]
       = Some (Ptr 0, [\<lparr>major = 0, minor = 0, patch = 0, suffix = ''-rc''\<rparr>])
   \<and> starts_with CHR ''-'' ''-rc''"
  using SetMajor_fresh [of "[]"] SetSuffix_fresh [of "[]"]
  by (simp add: NewVersionFromString_def alloc_def Let_def find_hyphens Atoi_1
      SetSuffix_def load_def store_def starts_with_def)

text \<open>
  C8, as amended. A new version has an empty suffix. The suffix that
  \<open>NewVersionFromString\<close> stores begins with a hyphen exactly when parsing succeeds and
  the match has two hyphens right after its numeric group: the first is stripped as the
  separator, the second is kept (hyphens further on do not matter: \<open>1.0-rc--2\<close> has the
  suffix \<open>rc--2\<close>). \<open>SetFromString\<close> stores what \<open>NewVersionFromString\<close> stores and
  returns that version, or the receiver on an error. \<open>SetMajor\<close>, \<open>SetMinor\<close> and
  \<open>SetPatch\<close> leave the suffix as it is; \<open>SetSuffix\<close> and \<open>Set\<close> store the segments
  joined by dots as they are given, so the suffix then begins with a hyphen exactly when
  the joined text does. No setter changes another version.
\<close>

theorem suffix_leading_hyphen:
  "load (snd (NewVersion h)) (fst (NewVersion h))
     = Some \<lparr>major = 0, minor = 0, patch = 0, suffix = []\<rparr>
   \<and> (\<forall>str p e h'. NewVersionFromString str h = Some ((p, e), h') \<longrightarrow>
         (\<exists>x. h' = h @ [x] \<and> load h' p = Some x
            \<and> (starts_with CHR ''-'' (suffix x) \<longleftrightarrow> e = None \<and> hyphens_follow_run str)))
   \<and> (\<forall>v str r h'. SetFromString v str h = Some (r, h') \<longrightarrow>
         (\<exists>p e. NewVersionFromString str h = Some ((p, e), h') \<and> r = (if e = None then p else v)))
   \<and> (\<forall>v x n. load h v = Some x \<longrightarrow>
         (\<exists>h'. SetMajor v n h = Some (v, h') \<and> load h' v = Some (x\<lparr>major := n\<rparr>)
               \<and> (\<forall>w. w \<noteq> v \<longrightarrow> load h' w = load h w))
       \<and> (\<exists>h'. SetMinor v n h = Some (v, h') \<and> load h' v = Some (x\<lparr>minor := n\<rparr>)
               \<and> (\<forall>w. w \<noteq> v \<longrightarrow> load h' w = load h w))
       \<and> (\<exists>h'. SetPatch v n h = Some (v, h') \<and> load h' v = Some (x\<lparr>patch := n\<rparr>)
               \<and> (\<forall>w. w \<noteq> v \<longrightarrow> load h' w = load h w)))
   \<and> (\<forall>v x es. load h v = Some x \<longrightarrow>
         (\<exists>h'. SetSuffix v es h = Some (v, h') \<and> load h' v = Some (x\<lparr>suffix := Join es ''.''\<rparr>)
               \<and> (\<forall>w. w \<noteq> v \<longrightarrow> load h' w = load h w)))
   \<and> (\<forall>v x a b c es. load h v = Some x \<longrightarrow>
         (\<exists>h'. Set v a b c es h = Some (v, h')
               \<and> load h' v = Some \<lparr>major = a, minor = b, patch = c, suffix = Join es ''.''\<rparr>
               \<and> (\<forall>w. w \<noteq> v \<longrightarrow> load h' w = load h w)))"
proof (intro conjI allI impI)
  show "load (snd (NewVersion h)) (fst (NewVersion h))
     = Some \<lparr>major = 0, minor = 0, patch = 0, suffix = []\<rparr>"
    by (simp add: NewVersion_result load_fresh)
next
  fix str p e h'
  assume "NewVersionFromString str h = Some ((p, e), h')"
  then show "\<exists>x. h' = h @ [x] \<and> load h' p = Some x
            \<and> (starts_with CHR ''-'' (suffix x) \<longleftrightarrow> e = None \<and> hyphens_follow_run str)"
    by (rule NewVersionFromString_suffix_exact)
next
  fix v str r h'
  assume a: "SetFromString v str h = Some (r, h')"
  obtain p e h1 where q: "NewVersionFromString str h = Some ((p, e), h1)"
    using a by (cases "NewVersionFromString str h") (auto simp: SetFromString_def)
  then have "h1 = h'" "r = (if e = None then p else v)"
    using a by (auto simp: SetFromString_def split: if_splits)
  then show "\<exists>p e. NewVersionFromString str h = Some ((p, e), h') \<and> r = (if e = None then p else v)"
    using q by blast
next
  fix v x n
  assume l: "load h v = Some x"
  show "\<exists>h'. SetMajor v n h = Some (v, h') \<and> load h' v = Some (x\<lparr>major := n\<rparr>)
               \<and> (\<forall>w. w \<noteq> v \<longrightarrow> load h' w = load h w)"
    using l by (rule SetMajor_effect)
  show "\<exists>h'. SetMinor v n h = Some (v, h') \<and> load h' v = Some (x\<lparr>minor := n\<rparr>)
               \<and> (\<forall>w. w \<noteq> v \<longrightarrow> load h' w = load h w)"
    using l by (rule SetMinor_effect)
  show "\<exists>h'. SetPatch v n h = Some (v, h') \<and> load h' v = Some (x\<lparr>patch := n\<rparr>)
               \<and> (\<forall>w. w \<noteq> v \<longrightarrow> load h' w = load h w)"
    using l by (rule SetPatch_effect)
next
  fix v x es
  assume "load h v = Some x"
  then show "\<exists>h'. SetSuffix v es h = Some (v, h') \<and> load h' v = Some (x\<lparr>suffix := Join es ''.''\<rparr>)
               \<and> (\<forall>w. w \<noteq> v \<longrightarrow> load h' w = load h w)"
    by (rule SetSuffix_effect)
next
  fix v x a b c es
  assume "load h v = Some x"
  then show "\<exists>h'. Set v a b c es h = Some (v, h')
               \<and> load h' v = Some \<lparr>major = a, minor = b, patch = c, suffix = Join es ''.''\<rparr>
               \<and> (\<forall>w. w \<noteq> v \<longrightarrow> load h' w = load h w)"
    by (rule Set_effect)
qed

theorem suffix_leading_hyphen_witness:
  "hyphens_follow_run ''1--rc''
   \<and> (\<exists>x. NewVersionFromString ''1--rc'' [\<lparr>major = 1, minor = 2, patch = 3, suffix = ''beta''\<rparr>]
            = Some ((Ptr 1, None), [\<lparr>major = 1, minor = 2, patch = 3, suffix = ''beta''\<rparr>, x])
         \<and> starts_with CHR ''-'' (suffix x))
   \<and> \<not> hyphens_follow_run ''1.0-rc--2''
   \<and> (\<exists>x. NewVersionFromString ''1.0-rc--2'' [\<lparr>major = 1, minor = 2, patch = 3, suffix = ''beta''\<rparr>]
            = Some ((Ptr 1, None), [\<lparr>major = 1, minor = 2, patch = 3, suffix = ''beta''\<rparr>, x])
         \<and> \<not> starts_with CHR ''-'' (suffix x))
   \<and> (\<exists>p e h'. NewVersionFromString ''1--rc'' [\<lparr>major = 1, minor = 2, patch = 3, suffix = ''beta''\<rparr>]
                = Some ((p, e), h')
          \<and> SetFromString (Ptr 0) ''1--rc'' [\<lparr>major = 1, minor = 2, patch = 3, suffix = ''beta''\<rparr>]
                = Some (if e = None then p else Ptr 0, h'))
   \<and> load [\<lparr>major = 1, minor = 2, patch = 3, suffix = ''beta''\<rparr>] (Ptr 0)
        = Some \<lparr>major = 1, minor = 2, patch = 3, suffix = ''beta''\<rparr>
   \<and> (\<exists>h'. SetMajor (Ptr 0) 7 [\<lparr>major = 1, minor = 2, patch = 3, suffix = ''beta''\<rparr>]
             = Some (Ptr 0, h')
         \<and> load h' (Ptr 0) = Some \<lparr>major = 7, minor = 2, patch = 3, suffix = ''beta''\<rparr>)
   \<and> (\<exists>h'. SetSuffix (Ptr 0) [''-rc'', ''1''] [\<lparr>major = 1, minor = 2, patch = 3, suffix = ''beta''\<rparr>]
             = Some (Ptr 0, h')
         \<and> load h' (Ptr 0) = Some \<lparr>major = 1, minor = 2, patch = 3, suffix = ''-rc.1''\<rparr>)
   \<and> (\<exists>h'. Set (Ptr 0) 7 0 7 [''rc'', ''1''] [\<lparr>major = 1, minor = 2, patch = 3, suffix = ''beta''\<rparr>]
             = Some (Ptr 0, h')
         \<and> load h' (Ptr 0) = Some \<lparr>major = 7, minor = 0, patch = 7, suffix = ''rc.1''\<rparr>)"
proof -
  let ?x = "\<lparr>major = 1, minor = 2, patch = 3, suffix = ''beta''\<rparr>"
  note T = suffix_leading_hyphen [of "[?x]"]
  note t2 = T [THEN conjunct2]
  note t3 = t2 [THEN conjunct2]
  note t4 = t3 [THEN conjunct2]
  note t5 = t4 [THEN conjunct2]
  note t6 = t5 [THEN conjunct2]
  have l: "load [?x] (Ptr 0) = Some ?x" by (simp add: load_def)
  have y: "hyphens_follow_run ''1--rc''"
    by (simp add: hyphens_follow_run_def find_hyphens)
  have n: "\<not> hyphens_follow_run ''1.0-rc--2''"
    by (simp add: hyphens_follow_run_def find_later_hyphens)
  have e1: "NewVersionFromString ''1--rc'' [?x]
       = Some ((Ptr 1, None), [?x, \<lparr>major = 1, minor = 0, patch = 0, suffix = ''-rc''\<rparr>])"
    using SetMajor_fresh [of "[?x]"] SetSuffix_fresh [of "[?x]"]
    by (simp add: NewVersionFromString_def alloc_def Let_def find_hyphens Atoi_1)
  have e2: "NewVersionFromString ''1.0-rc--2'' [?x]
       = Some ((Ptr 1, None), [?x, \<lparr>major = 1, minor = 0, patch = 0, suffix = ''rc--2''\<rparr>])"
    using SetMajor_fresh [of "[?x]"] SetMinor_fresh [of "[?x]"] SetSuffix_fresh [of "[?x]"]
    by (simp add: NewVersionFromString_def alloc_def Let_def find_later_hyphens Atoi_1 Atoi_0)
  have e3: "SetFromString (Ptr 0) ''1--rc'' [?x]
       = Some (Ptr 1, [?x, \<lparr>major = 1, minor = 0, patch = 0, suffix = ''-rc''\<rparr>])"
    by (simp add: SetFromString_def e1)
  from t2 [THEN conjunct1, rule_format, OF e1] y
  have c1: "\<exists>x. NewVersionFromString ''1--rc'' [?x] = Some ((Ptr 1, None), [?x, x])
         \<and> starts_with CHR ''-'' (suffix x)"
    using e1 by auto
  from t2 [THEN conjunct1, rule_format, OF e2] n
  have c2: "\<exists>x. NewVersionFromString ''1.0-rc--2'' [?x] = Some ((Ptr 1, None), [?x, x])
         \<and> \<not> starts_with CHR ''-'' (suffix x)"
    using e2 by auto
  from t3 [THEN conjunct1, rule_format, OF e3]
  have c3: "\<exists>p e h'. NewVersionFromString ''1--rc'' [?x] = Some ((p, e), h')
          \<and> SetFromString (Ptr 0) ''1--rc'' [?x] = Some (if e = None then p else Ptr 0, h')"
    using e3 by auto
  from t4 [THEN conjunct1, rule_format, OF l, of 7, THEN conjunct1]
  have c4: "\<exists>h'. SetMajor (Ptr 0) 7 [?x] = Some (Ptr 0, h')
         \<and> load h' (Ptr 0) = Some \<lparr>major = 7, minor = 2, patch = 3, suffix = ''beta''\<rparr>"
    by auto
  from t5 [THEN conjunct1, rule_format, OF l, of "[''-rc'', ''1'']"]
  have c5: "\<exists>h'. SetSuffix (Ptr 0) [''-rc'', ''1''] [?x] = Some (Ptr 0, h')
         \<and> load h' (Ptr 0) = Some \<lparr>major = 1, minor = 2, patch = 3, suffix = ''-rc.1''\<rparr>"
    by auto
  from t6 [rule_format, OF l, of 7 0 7 "[''rc'', ''1'']"]
  have c6: "\<exists>h'. Set (Ptr 0) 7 0 7 [''rc'', ''1''] [?x] = Some (Ptr 0, h')
         \<and> load h' (Ptr 0) = Some \<lparr>major = 7, minor = 0, patch = 7, suffix = ''rc.1''\<rparr>"
    by auto
  show ?thesis
    using y c1 n c2 c3 l c4 c5 c6 by (intro conjI)
qed

text \<open>
  C9. The claim: major, minor and patch are at least 0 after construction, after parsing
  and after every setter call, and no upper bound is enforced. The setters take an \<open>int\<close>
  and store it unchecked: \<open>NewVersion().SetMajor(-1)\<close> has major -1. And parsing does
  enforce an upper bound, the range of \<open>int\<close>: on \<open>9223372036854775808\<close> (2 to the power
  63) it returns an error.
\<close>

theorem SetMajor_negative:
  "NewVersion [] = (Ptr 0, [\<lparr>major = 0, minor = 0, patch = 0, suffix = []\<rparr>])
   \<and> SetMajor (Ptr 0) (- 1) [\<lparr>major = 0, minor = 0, patch = 0, suffix = []\<rparr>]
       = Some (Ptr 0, [\<lparr>major = - 1, minor = 0, patch = 0, suffix = []\<rparr>])
   \<and> \<not> 0 \<le>s (- 1 :: go_int)
   \<and> NewVersionFromString ''9223372036854775808'' []
       = Some ((Ptr 0, Some (InvalidMajorVersion ''9223372036854775808'')),
               [\<lparr>major = 0, minor = 0, patch = 0, suffix = []\<rparr>])"
  by (simp add: NewVersion_def alloc_def SetMajor_def load_def store_def word_sle_eq
      NewVersionFromString_def Let_def find_max_plus_1 Atoi_max_plus_1)

text \<open>
  C9, as amended. Major, minor and patch are 0 in a new version, and at least 0 in the
  version that \<open>NewVersionFromString\<close> and \<open>SetFromString\<close> allocate, on any text, with
  or without an error, whatever the store holds. \<open>SetMajor\<close>, \<open>SetMinor\<close>, \<open>SetPatch\<close>
  and \<open>Set\<close> store the integers they are given, unchecked, and leave the other components
  and the other versions as they are, so a component is at least 0 after a setter exactly
  when the integer given is; \<open>SetSuffix\<close> changes no component. The only upper bound is
  the range of \<open>int\<close>, and parsing enforces it: a run of digits is accepted as the major
  when its value is below 2 to the power 63, and gives the error of an invalid major
  version otherwise.
\<close>

theorem components_non_negative:
  "load (snd (NewVersion h)) (fst (NewVersion h))
     = Some \<lparr>major = 0, minor = 0, patch = 0, suffix = []\<rparr>
   \<and> (\<forall>str p e h'. NewVersionFromString str h = Some ((p, e), h') \<longrightarrow>
         (\<exists>x. h' = h @ [x] \<and> load h' p = Some x \<and> non_negative x))
   \<and> (\<forall>v str r h'. SetFromString v str h = Some (r, h') \<longrightarrow>
         (\<exists>x. h' = h @ [x] \<and> non_negative x \<and> (r = v \<or> load h' r = Some x)))
   \<and> (\<forall>v x n. load h v = Some x \<longrightarrow>
         (\<exists>h'. SetMajor v n h = Some (v, h') \<and> load h' v = Some (x\<lparr>major := n\<rparr>)
               \<and> (\<forall>w. w \<noteq> v \<longrightarrow> load h' w = load h w))
       \<and> (\<exists>h'. SetMinor v n h = Some (v, h') \<and> load h' v = Some (x\<lparr>minor := n\<rparr>)
               \<and> (\<forall>w. w \<noteq> v \<longrightarrow> load h' w = load h w))
       \<and> (\<exists>h'. SetPatch v n h = Some (v, h') \<and> load h' v = Some (x\<lparr>patch := n\<rparr>)
               \<and> (\<forall>w. w \<noteq> v \<longrightarrow> load h' w = load h w)))
   \<and> (\<forall>v x es. load h v = Some x \<longrightarrow>
         (\<exists>h'. SetSuffix v es h = Some (v, h') \<and> load h' v = Some (x\<lparr>suffix := Join es ''.''\<rparr>)
               \<and> (\<forall>w. w \<noteq> v \<longrightarrow> load h' w = load h w)))
   \<and> (\<forall>v x a b c es. load h v = Some x \<longrightarrow>
         (\<exists>h'. Set v a b c es h = Some (v, h')
               \<and> load h' v = Some \<lparr>major = a, minor = b, patch = c, suffix = Join es ''.''\<rparr>
               \<and> (\<forall>w. w \<noteq> v \<longrightarrow> load h' w = load h w)))
   \<and> (\<forall>ds. list_all is_digit ds \<and> ds \<noteq> [] \<longrightarrow>
         NewVersionFromString ds h =
           (if digits_value ds < 2 ^ 63
            then Some ((Ptr (length h), None),
                   h @ [\<lparr>major = word_of_nat (digits_value ds), minor = 0, patch = 0, suffix = []\<rparr>])
            else Some ((Ptr (length h), Some (InvalidMajorVersion ds)),
                   h @ [\<lparr>major = 0, minor = 0, patch = 0, suffix = []\<rparr>])))"
proof (intro conjI allI impI)
  show "load (snd (NewVersion h)) (fst (NewVersion h))
     = Some \<lparr>major = 0, minor = 0, patch = 0, suffix = []\<rparr>"
    by (simp add: NewVersion_result load_fresh)
next
  fix str p e h'
  assume a: "NewVersionFromString str h = Some ((p, e), h')"
  from NewVersionFromString_non_negative [OF a] obtain x where
    x: "h' = h @ [x]" "non_negative x" by blast
  from NewVersionFromString_frame [of str h] a x(1) have "p = Ptr (length h)" by auto
  then show "\<exists>x. h' = h @ [x] \<and> load h' p = Some x \<and> non_negative x"
    using x by (auto simp: load_fresh)
next
  fix v str r h'
  assume a: "SetFromString v str h = Some (r, h')"
  then obtain p e where pe: "NewVersionFromString str h = Some ((p, e), h')"
    and r: "r = (if e \<noteq> None then v else p)"
    by (auto simp: SetFromString_def split: option.splits if_splits)
  from NewVersionFromString_non_negative [OF pe] obtain x where
    x: "h' = h @ [x]" "non_negative x" by blast
  from NewVersionFromString_frame [of str h] pe x(1) have "p = Ptr (length h)" by auto
  then show "\<exists>x. h' = h @ [x] \<and> non_negative x \<and> (r = v \<or> load h' r = Some x)"
    using x r by (auto simp: load_fresh)
next
  fix v x n
  assume l: "load h v = Some x"
  show "\<exists>h'. SetMajor v n h = Some (v, h') \<and> load h' v = Some (x\<lparr>major := n\<rparr>)
               \<and> (\<forall>w. w \<noteq> v \<longrightarrow> load h' w = load h w)"
    using l by (rule SetMajor_effect)
  show "\<exists>h'. SetMinor v n h = Some (v, h') \<and> load h' v = Some (x\<lparr>minor := n\<rparr>)
               \<and> (\<forall>w. w \<noteq> v \<longrightarrow> load h' w = load h w)"
    using l by (rule SetMinor_effect)
  show "\<exists>h'. SetPatch v n h = Some (v, h') \<and> load h' v = Some (x\<lparr>patch := n\<rparr>)
               \<and> (\<forall>w. w \<noteq> v \<longrightarrow> load h' w = load h w)"
    using l by (rule SetPatch_effect)
next
  fix v x es
  assume "load h v = Some x"
  then show "\<exists>h'. SetSuffix v es h = Some (v, h') \<and> load h' v = Some (x\<lparr>suffix := Join es ''.''\<rparr>)
               \<and> (\<forall>w. w \<noteq> v \<longrightarrow> load h' w = load h w)"
    by (rule SetSuffix_effect)
next
  fix v x a b c es
  assume "load h v = Some x"
  then show "\<exists>h'. Set v a b c es h = Some (v, h')
               \<and> load h' v = Some \<lparr>major = a, minor = b, patch = c, suffix = Join es ''.''\<rparr>
               \<and> (\<forall>w. w \<noteq> v \<longrightarrow> load h' w = load h w)"
    by (rule Set_effect)
next
  fix ds
  assume "list_all is_digit ds \<and> ds \<noteq> []"
  then show "NewVersionFromString ds h =
           (if digits_value ds < 2 ^ 63
            then Some ((Ptr (length h), None),
                   h @ [\<lparr>major = word_of_nat (digits_value ds), minor = 0, patch = 0, suffix = []\<rparr>])
            else Some ((Ptr (length h), Some (InvalidMajorVersion ds)),
                   h @ [\<lparr>major = 0, minor = 0, patch = 0, suffix = []\<rparr>]))"
    using parse_digits by blast
qed

theorem components_non_negative_witness:
  "(\<exists>x. NewVersionFromString ''v1.2'' [\<lparr>major = 1, minor = 2, patch = 3, suffix = []\<rparr>]
            = Some ((Ptr 1, None), [\<lparr>major = 1, minor = 2, patch = 3, suffix = []\<rparr>, x])
        \<and> load [\<lparr>major = 1, minor = 2, patch = 3, suffix = []\<rparr>, x] (Ptr 1) = Some x
        \<and> non_negative x)
   \<and> (\<exists>x. SetFromString (Ptr 0) ''v1.2'' [\<lparr>major = 1, minor = 2, patch = 3, suffix = []\<rparr>]
            = Some (Ptr 1, [\<lparr>major = 1, minor = 2, patch = 3, suffix = []\<rparr>, x])
        \<and> non_negative x)
   \<and> load [\<lparr>major = 1, minor = 2, patch = 3, suffix = []\<rparr>] (Ptr 0)
        = Some \<lparr>major = 1, minor = 2, patch = 3, suffix = []\<rparr>
   \<and> (\<exists>h'. SetMajor (Ptr 0) (- 1) [\<lparr>major = 1, minor = 2, patch = 3, suffix = []\<rparr>]
             = Some (Ptr 0, h')
         \<and> load h' (Ptr 0) = Some \<lparr>major = - 1, minor = 2, patch = 3, suffix = []\<rparr>)
   \<and> (\<exists>h'. SetMinor (Ptr 0) 7 [\<lparr>major = 1, minor = 2, patch = 3, suffix = []\<rparr>]
             = Some (Ptr 0, h')
         \<and> load h' (Ptr 0) = Some \<lparr>major = 1, minor = 7, patch = 3, suffix = []\<rparr>)
   \<and> (\<exists>h'. SetPatch (Ptr 0) 7 [\<lparr>major = 1, minor = 2, patch = 3, suffix = []\<rparr>]
             = Some (Ptr 0, h')
         \<and> load h' (Ptr 0) = Some \<lparr>major = 1, minor = 2, patch = 7, suffix = []\<rparr>)
   \<and> (\<exists>h'. SetSuffix (Ptr 0) [''rc'', ''1''] [\<lparr>major = 1, minor = 2, patch = 3, suffix = []\<rparr>]
             = Some (Ptr 0, h')
         \<and> load h' (Ptr 0) = Some \<lparr>major = 1, minor = 2, patch = 3, suffix = ''rc.1''\<rparr>)
   \<and> (\<exists>h'. Set (Ptr 0) 7 0 (- 7) [''rc''] [\<lparr>major = 1, minor = 2, patch = 3, suffix = []\<rparr>]
             = Some (Ptr 0, h')
         \<and> load h' (Ptr 0) = Some \<lparr>major = 7, minor = 0, patch = - 7, suffix = ''rc''\<rparr>)
   \<and> list_all is_digit ''9223372036854775807''
   \<and> NewVersionFromString ''9223372036854775807'' [\<lparr>major = 1, minor = 2, patch = 3, suffix = []\<rparr>]
        = Some ((Ptr 1, None), [\<lparr>major = 1, minor = 2, patch = 3, suffix = []\<rparr>,
                \<lparr>major = 9223372036854775807, minor = 0, patch = 0, suffix = []\<rparr>])
   \<and> list_all is_digit ''9223372036854775808''
   \<and> NewVersionFromString ''9223372036854775808'' [\<lparr>major = 1, minor = 2, patch = 3, suffix = []\<rparr>]
        = Some ((Ptr 1, Some (InvalidMajorVersion ''9223372036854775808'')),
                [\<lparr>major = 1, minor = 2, patch = 3, suffix = []\<rparr>,
                 \<lparr>major = 0, minor = 0, patch = 0, suffix = []\<rparr>])"
proof -
  let ?x = "\<lparr>major = 1, minor = 2, patch = 3, suffix = []\<rparr>"
  note T = components_non_negative [of "[?x]"]
  note t2 = T [THEN conjunct2]
  note t3 = t2 [THEN conjunct2]
  note t4 = t3 [THEN conjunct2]
  note t5 = t4 [THEN conjunct2]
  note t6 = t5 [THEN conjunct2]
  note t7 = t6 [THEN conjunct2]
  have l: "load [?x] (Ptr 0) = Some ?x" by (simp add: load_def)
  have e1: "NewVersionFromString ''v1.2'' [?x]
       = Some ((Ptr 1, None), [?x, \<lparr>major = 1, minor = 2, patch = 0, suffix = []\<rparr>])"
    using parse_v12 [of "[?x]"] by simp
  have e2: "SetFromString (Ptr 0) ''v1.2'' [?x]
       = Some (Ptr 1, [?x, \<lparr>major = 1, minor = 2, patch = 0, suffix = []\<rparr>])"
    by (simp add: SetFromString_def e1)
  from t2 [THEN conjunct1, rule_format, OF e1]
  have c1: "\<exists>x. NewVersionFromString ''v1.2'' [?x] = Some ((Ptr 1, None), [?x, x])
        \<and> load [?x, x] (Ptr 1) = Some x \<and> non_negative x"
    using e1 by auto
  from t3 [THEN conjunct1, rule_format, OF e2]
  have c2: "\<exists>x. SetFromString (Ptr 0) ''v1.2'' [?x] = Some (Ptr 1, [?x, x]) \<and> non_negative x"
    using e2 by auto
  note s = t4 [THEN conjunct1, rule_format, OF l]
  from s [of "- 1", THEN conjunct1]
  have c3: "\<exists>h'. SetMajor (Ptr 0) (- 1) [?x] = Some (Ptr 0, h')
         \<and> load h' (Ptr 0) = Some \<lparr>major = - 1, minor = 2, patch = 3, suffix = []\<rparr>"
    by auto
  from s [of 7, THEN conjunct2, THEN conjunct1]
  have c4: "\<exists>h'. SetMinor (Ptr 0) 7 [?x] = Some (Ptr 0, h')
         \<and> load h' (Ptr 0) = Some \<lparr>major = 1, minor = 7, patch = 3, suffix = []\<rparr>"
    by auto
  from s [of 7, THEN conjunct2, THEN conjunct2]
  have c5: "\<exists>h'. SetPatch (Ptr 0) 7 [?x] = Some (Ptr 0, h')
         \<and> load h' (Ptr 0) = Some \<lparr>major = 1, minor = 2, patch = 7, suffix = []\<rparr>"
    by auto
  from t5 [THEN conjunct1, rule_format, OF l, of "[''rc'', ''1'']"]
  have c6: "\<exists>h'. SetSuffix (Ptr 0) [''rc'', ''1''] [?x] = Some (Ptr 0, h')
         \<and> load h' (Ptr 0) = Some \<lparr>major = 1, minor = 2, patch = 3, suffix = ''rc.1''\<rparr>"
    by auto
  from t6 [THEN conjunct1, rule_format, OF l, of 7 0 "- 7" "[''rc'']"]
  have c7: "\<exists>h'. Set (Ptr 0) 7 0 (- 7) [''rc''] [?x] = Some (Ptr 0, h')
         \<and> load h' (Ptr 0) = Some \<lparr>major = 7, minor = 0, patch = - 7, suffix = ''rc''\<rparr>"
    by auto
  have d1: "list_all is_digit ''9223372036854775807''" by (simp add: is_digit_def)
  have d2: "list_all is_digit ''9223372036854775808''" by (simp add: is_digit_def)
  from t7 [rule_format, of "''9223372036854775807''"] d1
  have c8: "NewVersionFromString ''9223372036854775807'' [?x]
        = Some ((Ptr 1, None), [?x, \<lparr>major = 9223372036854775807, minor = 0, patch = 0, suffix = []\<rparr>])"
    by (simp add: digits_value_def digit_val_def)
  from t7 [rule_format, of "''9223372036854775808''"] d2
  have c9: "NewVersionFromString ''9223372036854775808'' [?x]
        = Some ((Ptr 1, Some (InvalidMajorVersion ''9223372036854775808'')),
                [?x, \<lparr>major = 0, minor = 0, patch = 0, suffix = []\<rparr>])"
    by (simp add: digits_value_def digit_val_def)
  show ?thesis
    using c1 c2 l c3 c4 c5 c6 c7 d1 c8 d2 c9 by (intro conjI)
qed

text \<open>
  C10. The pattern is searched for anywhere in the input: on \<open>abc1.2\<close> the match starts
  at the fourth byte, and parsing succeeds with major 1, minor 2, patch 0, an empty
  suffix and a nil error.
\<close>

theorem NewVersionFromString_unanchored:
  "FindStringSubmatch reSemVer ''abc1.2'' = [''1.2'', ''1.2'', []]
   \<and> NewVersionFromString ''abc1.2'' h =
     Some ((Ptr (length h), None), h @ [\<lparr>major = 1, minor = 2, patch = 0, suffix = []\<rparr>])"
  by (simp add: parse_eval find_abc12 Atoi_1 Atoi_2)

end
